theory Spec2Isabelle
  imports
    Main
    "HOL-Library.Char_ord"
    "HOL-Library.List_Lexorder"
    "HOL-Library.Product_Lexorder"
    "HOL-Library.Multiset"
begin

section \<open>Git History Logbook: the collection pipeline of \<open>git_history_logbook.py\<close>\<close>

text \<open>
  Python strings are modelled as \<open>string\<close> (lists of 8-bit characters, compared by code
  point as Python compares \<open>str\<close>); code points above 255 are outside the model.
  Everything the program asks of the outside world (the filesystem, the \<open>git\<close>
  processes, the clock, the scheduler of the worker pool) is a field of an explicit
  environment record, and every exception the source can meet is a value.
\<close>

subsection \<open>String primitives of the Python runtime\<close>

text \<open>\<open>str.isspace\<close> on one character, for the code points below 256.\<close>

definition is_space :: "char \<Rightarrow> bool" where
  "is_space c =
     (let n = (of_char c :: nat)
      in (9 \<le> n \<and> n \<le> 13) \<or> (28 \<le> n \<and> n \<le> 32) \<or> n = 133 \<or> n = 160)"

text \<open>\<open>s.strip()\<close>: leading and trailing whitespace removed.\<close>

definition strip :: "string \<Rightarrow> string" where
  "strip s = rev (dropWhile is_space (rev (dropWhile is_space s)))"

text \<open>
  \<open>s.split(sep, n)\<close> for a one-character separator: cut at the first \<open>n\<close>
  occurrences of \<open>sep\<close>; what is left after the last cut is the last field.
\<close>

primrec split_max :: "char \<Rightarrow> nat \<Rightarrow> string \<Rightarrow> string list" where
  "split_max sep 0 s = [s]"
| "split_max sep (Suc n) s =
     (case dropWhile (\<lambda>c. c \<noteq> sep) s of
        [] \<Rightarrow> [s]
      | _ # rest \<Rightarrow> takeWhile (\<lambda>c. c \<noteq> sep) s # split_max sep n rest)"

text \<open>
  \<open>s.split(sep)\<close> without a limit: a string holds at most \<open>length s\<close> separators,
  so that many cuts are all of them.
\<close>

definition split_all :: "char \<Rightarrow> string \<Rightarrow> string list" where
  "split_all sep s = split_max sep (length s) s"

abbreviation newline :: char where
  "newline \<equiv> CHR 0x0A"

abbreviation bar :: char where
  "bar \<equiv> CHR ''|''"

subsection \<open>Data model\<close>

text \<open>The commit dictionary built by \<open>_get_commit_history\<close>, with its seven keys.\<close>

record commit =
  repository :: string
  project :: string
  hash :: string
  author_name :: string
  date :: string
  subject :: string
  body :: string

text \<open>
  A repository descriptor is a dictionary read with \<open>.get\<close>: each key may be absent,
  which is \<open>None\<close> here.
\<close>

record repo_info =
  name :: "string option"
  url :: "string option"
  project_label :: "string option"

text \<open>The keyword arguments \<open>**filters\<close>; an absent key is \<open>None\<close>.\<close>

record filters =
  since :: "string option"
  until :: "string option"
  author :: "string option"
  branch :: "string option"
  parallel_workers :: "int option"

text \<open>Python truthiness of an optional string: present and not empty.\<close>

fun truthy :: "string option \<Rightarrow> bool" where
  "truthy None = False"
| "truthy (Some s) = (s \<noteq> [])"

text \<open>
  The exceptions the program can meet in its calls to the outside world and to the
  library. All are subclasses of \<open>Exception\<close>, so an \<open>except Exception\<close> clause catches
  each of them; \<open>OtherException\<close> stands for every class that no handler names and no
  call of the model raises by itself (a missing executable, output that does not
  decode, a full disk, ...).
\<close>

datatype exn = PermissionError | TimeoutExpired | ValueError | OtherException

text \<open>What \<open>subprocess.run\<close> returns when it does not raise.\<close>

record completed_process =
  returncode :: int
  stdout :: string
  stderr :: string

text \<open>
  Observable actions, in the order they happen: the external commands that were run,
  the workspace directories that were acquired and removed, the files written, and the
  lines sent to the logger with their level.
\<close>

datatype level = INFO | WARNING | ERROR

text \<open>The lines that the program prints to standard output.\<close>

datatype message =
    NoRepositories
  | Processing
  | NoCommitsFound
  | Collected
  | GeneratingLogbook
  | MarkdownGenerated
  | HtmlGenerated
  | Complete
  | GeneratedFile string
  | Cancelled

datatype event =
    RunGitLog "string list" string
  | RunGitClone string string
  | RunGitFetch string
  | AcquireTemp string
  | RunRmtree string
  | RunRmdirFallback string
  | WriteFile string
  | Print message
  | LogLine level string

text \<open>A naive \<open>datetime\<close>: year, month, day, hour, minute, second, microsecond,
  compared lexicographically.\<close>

type_synonym timestamp = "nat \<times> nat \<times> nat \<times> nat \<times> nat \<times> nat \<times> nat"

text \<open>
  The moments of \<open>main\<close> at which an interrupt of the user may arrive: before the
  \<open>try\<close> block is entered; inside it, while the commits are collected, while the CSV
  file is saved, before the Markdown report is written, after it and before the HTML
  report is written, and after every file is written (while the closing messages are
  printed); while a handler runs; and during the cleanup of the \<open>finally\<close> clause.
\<close>

datatype stage =
    Starting
  | Collecting | SavingCsv | WritingMarkdown | WritingHtml | Reporting
  | Handling
  | CleaningUp

text \<open>What a step of \<open>main\<close> can raise: the interrupt of the user, which no
  \<open>except Exception\<close> catches, or an exception.\<close>

datatype raised = KeyboardInterrupt | Exception exn

text \<open>The configuration file, as \<open>.get\<close> reads it; an absent key is \<open>None\<close> (or the
  empty list for \<open>repositories\<close>, which is as falsy as an absent key).\<close>

record config =
  repositories :: "repo_info list"
  selected_authors :: "string list option"
  default_filters :: "filters option"

text \<open>
  The environment. Each field answers one kind of call of the program:
  \<open>path_exists\<close> is \<open>os.path.exists\<close>; \<open>git_log\<close> (command, working directory),
  \<open>git_clone\<close> (url, target) and \<open>git_fetch\<close> (working directory) are the three
  \<open>subprocess.run\<close> calls; \<open>make_temp\<close> is the creation of a fresh workspace directory
  by \<open>_temp_directory\<close> for a repository (its name, or the exception of \<open>os.makedirs\<close>);
  \<open>rmtree\<close> is \<open>shutil.rmtree\<close> and \<open>rmdir_fallback\<close> the forced-deletion command;
  \<open>completion_order\<close> is the order in which the worker pool completes the submitted
  tasks; \<open>now\<close> gives the successive readings of \<open>datetime.now()\<close>; \<open>load_json\<close> reads a
  configuration file; \<open>write_file\<close> opens and writes an output file; \<open>print_out\<close> is
  \<open>print\<close>, which raises when standard output cannot take the line (a closed pipe, an
  encoding without the character); \<open>render_markdown\<close> and \<open>render_html\<close> build the text
  of the two reports from the ordered commits, or raise while building it (the
  templates are not modelled); \<open>interrupt_at\<close> is the moment, if any, at which the user
  interrupts the run.
  An answer depends on the arguments of the call only, not on the moment of the call.
\<close>

record world =
  path_exists :: "string \<Rightarrow> bool"
  git_log :: "string list \<Rightarrow> string \<Rightarrow> exn + completed_process"
  git_clone :: "string \<Rightarrow> string \<Rightarrow> exn + completed_process"
  git_fetch :: "string \<Rightarrow> exn + completed_process"
  make_temp :: "repo_info \<Rightarrow> exn + string"
  rmtree :: "string \<Rightarrow> exn option"
  rmdir_fallback :: "string \<Rightarrow> exn + completed_process"
  completion_order :: "repo_info list \<Rightarrow> repo_info list"
  now :: "nat \<Rightarrow> timestamp"
  load_json :: "string \<Rightarrow> exn + config"
  write_file :: "string \<Rightarrow> exn option"
  print_out :: "message \<Rightarrow> exn option"
  render_markdown :: "(commit \<times> timestamp) list \<Rightarrow> exn + string"
  render_html :: "(commit \<times> timestamp) list \<Rightarrow> exn + string"
  interrupt_at :: "stage option"

subsection \<open>History Extractor: \<open>_get_commit_history\<close>\<close>

text \<open>The \<open>git log\<close> command line built from the filters.\<close>

definition log_command :: "filters \<Rightarrow> string list" where
  "log_command f =
     [''git'', ''log'', ''--pretty=format:%H|%an|%ad|%s|%b'', ''--date=iso'']
     @ (if truthy (since f) then [''--since'', the (since f)] else [])
     @ (if truthy (until f) then [''--until'', the (until f)] else [])
     @ (if truthy (author f) then [''--author'', the (author f)] else [])
     @ (if truthy (branch f) then [the (branch f)] else [''--all''])"

text \<open>The dictionary literal: the commit built from the fields of one line.\<close>

definition commit_of_parts :: "string \<Rightarrow> string \<Rightarrow> string list \<Rightarrow> commit" where
  "commit_of_parts repo_name repo_project parts =
     \<lparr> repository = repo_name,
       project = repo_project,
       hash = parts ! 0,
       author_name = parts ! 1,
       date = parts ! 2,
       subject = parts ! 3,
       body = (if length parts > 4 then parts ! 4 else []) \<rparr>"

text \<open>
  One iteration of the parsing loop: a blank line and a line with fewer than four
  fields are skipped (\<open>continue\<close>); any other line becomes one commit.
\<close>

definition commit_of_line :: "string \<Rightarrow> string \<Rightarrow> string \<Rightarrow> commit option" where
  "commit_of_line repo_name repo_project line =
     (if strip line = [] then None
      else
        let parts = split_max bar 4 line
        in if length parts < 4 then None
           else Some (commit_of_parts repo_name repo_project parts))"

text \<open>The loop over \<open>result.stdout.strip().split('\n')\<close>.\<close>

definition parse_log :: "string \<Rightarrow> string \<Rightarrow> string \<Rightarrow> commit list" where
  "parse_log repo_name repo_project out =
     List.map_filter (commit_of_line repo_name repo_project)
       (split_all newline (strip out))"

text \<open>
  \<open>_get_commit_history\<close>: the commits returned and the actions performed. The two
  \<open>except\<close> clauses catch every exception of the \<open>try\<close> block, so there is no error
  result.
\<close>

definition get_commit_history ::
    "world \<Rightarrow> string \<Rightarrow> string \<Rightarrow> string \<Rightarrow> filters \<Rightarrow> commit list \<times> event list" where
  "get_commit_history w repo_path repo_name repo_project f =
     (let cmd = log_command f
      in case git_log w cmd repo_path of
           Inr result \<Rightarrow>
             if returncode result \<noteq> 0
             then ([], [RunGitLog cmd repo_path, LogLine ERROR ''Git log failed''])
             else (parse_log repo_name repo_project (stdout result),
                   [RunGitLog cmd repo_path, LogLine INFO ''Extracted commits''])
         | Inl TimeoutExpired \<Rightarrow>
             ([], [RunGitLog cmd repo_path, LogLine ERROR ''Timeout getting commit history''])
         | Inl _ \<Rightarrow>
             ([], [RunGitLog cmd repo_path, LogLine ERROR ''Error getting commit history'']))"

subsection \<open>Workspace Manager: \<open>_cleanup_directory\<close>\<close>

text \<open>
  The outer \<open>try\<close> runs \<open>shutil.rmtree\<close> when the directory exists. A
  \<open>PermissionError\<close> enters the first handler, which runs the forced-deletion command
  once (with \<open>check=False\<close>, so its return code is not looked at) inside a \<open>try\<close> of its
  own; any other exception enters the second handler. The result is \<open>Inl\<close> of an
  exception that leaves the function, or \<open>Inr ()\<close> when it returns.
\<close>

definition cleanup_directory :: "world \<Rightarrow> string \<Rightarrow> (exn + unit) \<times> event list" where
  "cleanup_directory w directory =
     (if path_exists w directory
      then
        (case rmtree w directory of
           None \<Rightarrow>
             (Inr (), [RunRmtree directory, LogLine INFO ''Cleaned up local temp directory''])
         | Some PermissionError \<Rightarrow>
             (case rmdir_fallback w directory of
                Inr _ \<Rightarrow>
                  (Inr (), [RunRmtree directory, RunRmdirFallback directory,
                            LogLine INFO ''Cleaned up local temp directory (Windows)''])
              | Inl _ \<Rightarrow>
                  (Inr (), [RunRmtree directory, RunRmdirFallback directory,
                            LogLine WARNING ''Could not clean up'']))
         | Some _ \<Rightarrow>
             (Inr (), [RunRmtree directory, LogLine WARNING ''Error cleaning up'']))
      else (Inr (), []))"

subsection \<open>Repository Fetcher: \<open>_process_repository\<close>\<close>

text \<open>\<open>os.path.join\<close> of two components (POSIX).\<close>

definition path_join :: "string \<Rightarrow> string \<Rightarrow> string" where
  "path_join a b =
     (if b \<noteq> [] \<and> hd b = CHR ''/'' then b
      else if a = [] \<or> last a = CHR ''/'' then a @ b
      else a @ ''/'' @ b)"

text \<open>\<open>d.get(key, default)\<close>.\<close>

fun get_default :: "'a option \<Rightarrow> 'a \<Rightarrow> 'a" where
  "get_default None d = d"
| "get_default (Some v) d = v"

text \<open>
  The body of the inner \<open>try\<close> of the remote branch: clone, fetch all branches, extract.
  Its \<open>except Exception\<close> turns every exception of the two commands into the empty list.
\<close>

definition clone_and_extract ::
    "world \<Rightarrow> string \<Rightarrow> string \<Rightarrow> string \<Rightarrow> string \<Rightarrow> filters \<Rightarrow> commit list \<times> event list" where
  "clone_and_extract w repo_url clone_path repo_name repo_project f =
     (case git_clone w repo_url clone_path of
        Inl _ \<Rightarrow>
          ([], [RunGitClone repo_url clone_path, LogLine ERROR ''Error processing''])
      | Inr result \<Rightarrow>
          if returncode result \<noteq> 0
          then ([], [RunGitClone repo_url clone_path, LogLine ERROR ''Failed to clone''])
          else
            (case git_fetch w clone_path of
               Inl _ \<Rightarrow>
                 ([], [RunGitClone repo_url clone_path, RunGitFetch clone_path,
                       LogLine ERROR ''Error processing''])
             | Inr _ \<Rightarrow>
                 (let (commits, evs) = get_commit_history w clone_path repo_name repo_project f
                  in (commits,
                      [RunGitClone repo_url clone_path, RunGitFetch clone_path,
                       LogLine INFO ''Cloned''] @ evs))))"

text \<open>
  \<open>_process_repository\<close>. An exception raised while the workspace is created is not
  inside any \<open>try\<close> of this function and leaves it; so would one raised by the cleanup
  in the \<open>finally\<close> of the context manager.
\<close>

definition process_repository ::
    "world \<Rightarrow> repo_info \<Rightarrow> filters \<Rightarrow> (exn + commit list) \<times> event list" where
  "process_repository w repo f =
     (let repo_name = get_default (name repo) ''unknown'';
          repo_url = get_default (url repo) [];
          repo_project = get_default (project_label repo) ''Unknown''
      in if repo_url = []
         then (Inr [], [LogLine ERROR ''No URL provided for repository''])
         else if path_exists w repo_url
         then
           (let (commits, evs) = get_commit_history w repo_url repo_name repo_project f
            in (Inr commits, LogLine INFO ''Processing repository'' # evs))
         else
           (case make_temp w repo of
              Inl e \<Rightarrow> (Inl e, [LogLine INFO ''Processing repository''])
            | Inr temp_dir \<Rightarrow>
                (let clone_path = path_join temp_dir repo_name;
                     (commits, evs) =
                        clone_and_extract w repo_url clone_path repo_name repo_project f;
                     (released, cevs) = cleanup_directory w temp_dir;
                     trace = [LogLine INFO ''Processing repository'', AcquireTemp temp_dir,
                              LogLine INFO ''Created local temp directory''] @ evs @ cevs
                 in case released of
                      Inl e \<Rightarrow> (Inl e, trace)
                    | Inr _ \<Rightarrow> (Inr commits, trace))))"

subsection \<open>Collection Orchestrator: \<open>export_history\<close>\<close>

text \<open>
  \<open>xs.sort(key=k, reverse=True)\<close>: Python reverses the list, sorts it stably in
  ascending order of the key and reverses it again.
\<close>

definition sort_reverse :: "('a \<Rightarrow> 'k::linorder) \<Rightarrow> 'a list \<Rightarrow> 'a list" where
  "sort_reverse k xs = rev (sort_key k (rev xs))"

text \<open>
  The body of the collecting loop for one completed task: \<open>future.result()\<close> either
  gives the task's commits, or re-raises the task's exception, which the
  \<open>except Exception\<close> of the loop logs and drops.
\<close>

definition collect_result :: "world \<Rightarrow> filters \<Rightarrow> repo_info \<Rightarrow> commit list" where
  "collect_result w f repo =
     (case fst (process_repository w repo f) of
        Inr commits \<Rightarrow> commits
      | Inl _ \<Rightarrow> [])"

text \<open>\<open>all_commits\<close> after the loop over \<open>as_completed\<close>.\<close>

definition gather :: "world \<Rightarrow> filters \<Rightarrow> repo_info list \<Rightarrow> commit list" where
  "gather w f repos = concat (map (collect_result w f) (completion_order w repos))"

text \<open>The author filter, applied when the allow-list is configured and not empty.\<close>

definition filter_authors :: "config \<Rightarrow> commit list \<Rightarrow> commit list" where
  "filter_authors cfg all_commits =
     (case selected_authors cfg of
        None \<Rightarrow> all_commits
      | Some authors \<Rightarrow>
          if authors \<noteq> []
          then filter (\<lambda>c. author_name c \<in> set authors) all_commits
          else all_commits)"

text \<open>The size of the worker pool: \<open>filters.get('parallel_workers', 4)\<close>.\<close>

definition pool_workers :: "filters \<Rightarrow> int" where
  "pool_workers f = get_default (parallel_workers f) 4"

text \<open>
  \<open>export_history\<close>. The constructor of \<open>ThreadPoolExecutor\<close> raises \<open>ValueError\<close> for
  a pool size that is not positive, before any task is submitted; nothing in the
  function catches it. Otherwise the tasks run, their results are gathered, filtered
  by author and sorted on the raw date string, newest first.
\<close>

definition export_history ::
    "world \<Rightarrow> config \<Rightarrow> repo_info list \<Rightarrow> filters \<Rightarrow> exn + commit list" where
  "export_history w cfg repos f =
     (if pool_workers f \<le> 0 then Inl ValueError
      else Inr (sort_reverse date (filter_authors cfg (gather w f repos))))"

subsection \<open>\<open>datetime.strptime\<close> with the format \<open>%Y-%m-%d %H:%M:%S\<close>\<close>

text \<open>
  CPython's \<open>_strptime\<close> turns the format into the regular expression
  \<^verbatim>\<open>(?P<Y>\d\d\d\d)-(?P<m>1[0-2]|0[1-9]|[1-9])-(?P<d>3[0-1]|[1-2]\d|0[1-9]|[1-9]| [1-9])\s+\<close>
  \<^verbatim>\<open>(?P<H>2[0-3]|[0-1]\d|\d):(?P<M>[0-5]\d|\d):(?P<S>6[0-1]|[0-5]\d|\d)\<close>,
  matches it at the start of the string, raises \<open>ValueError\<close> when there is no match or
  when text remains after the match, and builds the \<open>datetime\<close> from the groups, which
  raises \<open>ValueError\<close> for a date that does not exist. Each piece of the expression
  is a function from the text to the list of its possible matches (value and rest of
  the text), in the order the regex engine tries them.
\<close>

definition is_digit :: "char \<Rightarrow> bool" where
  "is_digit c = (let n = (of_char c :: nat) in 48 \<le> n \<and> n \<le> 57)"

definition digit :: "char \<Rightarrow> nat" where
  "digit c = of_char c - 48"

text \<open>The character class \<open>[lo-hi]\<close> of digits.\<close>

definition cls :: "nat \<Rightarrow> nat \<Rightarrow> char \<Rightarrow> bool" where
  "cls lo hi c = (is_digit c \<and> lo \<le> digit c \<and> digit c \<le> hi)"

definition two :: "(char \<Rightarrow> bool) \<Rightarrow> (char \<Rightarrow> bool) \<Rightarrow> string \<Rightarrow> (nat \<times> string) list" where
  "two p q s =
     (case s of
        a # b # r \<Rightarrow> if p a \<and> q b then [(10 * digit a + digit b, r)] else []
      | _ \<Rightarrow> [])"

definition one :: "(char \<Rightarrow> bool) \<Rightarrow> string \<Rightarrow> (nat \<times> string) list" where
  "one p s = (case s of a # r \<Rightarrow> if p a then [(digit a, r)] else [] | [] \<Rightarrow> [])"

definition space_one :: "string \<Rightarrow> (nat \<times> string) list" where
  "space_one s =
     (case s of
        a # b # r \<Rightarrow> if a = CHR '' '' \<and> cls 1 9 b then [(digit b, r)] else []
      | _ \<Rightarrow> [])"

definition lit :: "char \<Rightarrow> string \<Rightarrow> string list" where
  "lit c s = (case s of a # r \<Rightarrow> if a = c then [r] else [] | [] \<Rightarrow> [])"

definition re_year :: "string \<Rightarrow> (nat \<times> string) list" where
  "re_year s =
     (case s of
        a # b # c # d # r \<Rightarrow>
          if is_digit a \<and> is_digit b \<and> is_digit c \<and> is_digit d
          then [(1000 * digit a + 100 * digit b + 10 * digit c + digit d, r)]
          else []
      | _ \<Rightarrow> [])"

definition re_month :: "string \<Rightarrow> (nat \<times> string) list" where
  "re_month s = two (cls 1 1) (cls 0 2) s @ two (cls 0 0) (cls 1 9) s @ one (cls 1 9) s"

definition re_day :: "string \<Rightarrow> (nat \<times> string) list" where
  "re_day s =
     two (cls 3 3) (cls 0 1) s @ two (cls 1 2) is_digit s @ two (cls 0 0) (cls 1 9) s
     @ one (cls 1 9) s @ space_one s"

definition re_hour :: "string \<Rightarrow> (nat \<times> string) list" where
  "re_hour s = two (cls 2 2) (cls 0 3) s @ two (cls 0 1) is_digit s @ one is_digit s"

definition re_minute :: "string \<Rightarrow> (nat \<times> string) list" where
  "re_minute s = two (cls 0 5) is_digit s @ one is_digit s"

definition re_second :: "string \<Rightarrow> (nat \<times> string) list" where
  "re_second s = two (cls 6 6) (cls 0 1) s @ two (cls 0 5) is_digit s @ one is_digit s"

text \<open>\<open>\s+\<close> is greedy: the longest run of whitespace first, then shorter ones.\<close>

definition re_spaces :: "string \<Rightarrow> string list" where
  "re_spaces s = map (\<lambda>k. drop k s) (rev [1 ..< Suc (length (takeWhile is_space s))])"

definition match_format :: "string \<Rightarrow> ((nat \<times> nat \<times> nat \<times> nat \<times> nat \<times> nat) \<times> string) list" where
  "match_format s =
     List.bind (re_year s) (\<lambda>(Y, s1).
     List.bind (lit CHR ''-'' s1) (\<lambda>s2.
     List.bind (re_month s2) (\<lambda>(m, s3).
     List.bind (lit CHR ''-'' s3) (\<lambda>s4.
     List.bind (re_day s4) (\<lambda>(d, s5).
     List.bind (re_spaces s5) (\<lambda>s6.
     List.bind (re_hour s6) (\<lambda>(H, s7).
     List.bind (lit CHR '':'' s7) (\<lambda>s8.
     List.bind (re_minute s8) (\<lambda>(M, s9).
     List.bind (lit CHR '':'' s9) (\<lambda>s10.
     List.bind (re_second s10) (\<lambda>(S, rest).
       [((Y, m, d, H, M, S), rest)])))))))))))"

definition is_leap :: "nat \<Rightarrow> bool" where
  "is_leap y = (y mod 4 = 0 \<and> (y mod 100 \<noteq> 0 \<or> y mod 400 = 0))"

definition days_in_month :: "nat \<Rightarrow> nat \<Rightarrow> nat" where
  "days_in_month y m =
     (if m = 2 then (if is_leap y then 29 else 28)
      else if m = 4 \<or> m = 6 \<or> m = 9 \<or> m = 11 then 30
      else 31)"

text \<open>\<open>None\<close> is the \<open>ValueError\<close>.\<close>

definition strptime :: "string \<Rightarrow> timestamp option" where
  "strptime s =
     (case match_format s of
        [] \<Rightarrow> None
      | ((Y, m, d, H, M, S), rest) # _ \<Rightarrow>
          if rest \<noteq> [] then None
          else if 1 \<le> Y \<and> 1 \<le> d \<and> d \<le> days_in_month Y m \<and> S \<le> 59
          then Some (Y, m, d, H, M, S, 0)
          else None)"

subsection \<open>Report generation: the ordering step of \<open>generate_logbook\<close>\<close>

text \<open>
  The first loop of \<open>generate_logbook\<close> adds the key \<open>parsed_date\<close> to every commit:
  the parsed first 19 characters of the raw date, or, when parsing raises, the reading
  of the clock at that moment. The second component of the pair is that key; the
  number counts the clock readings made so far.
\<close>

fun parse_dates :: "(nat \<Rightarrow> timestamp) \<Rightarrow> nat \<Rightarrow> commit list \<Rightarrow> (commit \<times> timestamp) list" where
  "parse_dates clock k [] = []"
| "parse_dates clock k (c # cs) =
     (case strptime (take 19 (date c)) of
        Some t \<Rightarrow> (c, t) # parse_dates clock k cs
      | None \<Rightarrow> (c, clock k) # parse_dates clock (Suc k) cs)"

text \<open>The list \<open>commits\<close> after \<open>commits.sort(key=lambda x: x['parsed_date'], reverse=True)\<close>.\<close>

definition logbook_order :: "world \<Rightarrow> commit list \<Rightarrow> (commit \<times> timestamp) list" where
  "logbook_order w commits = sort_reverse snd (parse_dates (now w) 0 commits)"

text \<open>
  A step of the program gives a value or raises, and leaves a trace. \<open>and_then\<close> runs a
  second step after a first one that did not raise.
\<close>

type_synonym 'a step = "(raised + 'a) \<times> event list"




definition print_line :: "world \<Rightarrow> message \<Rightarrow> unit step" where
  "print_line w m =
     (case print_out w m of
        Some e \<Rightarrow> (Inl (Exception e), [])
      | None \<Rightarrow> (Inr (), [Print m]))"




subsection \<open>Tabular export: \<open>save_to_csv\<close> and the \<open>csv\<close> module\<close>

text \<open>
  \<open>csv.DictWriter\<close> writes with the default dialect: delimiter \<open>,\<close>, quote character
  \<open>"\<close>, minimal quoting, quotes inside a field doubled, rows ended by CR LF. A field is
  quoted when it holds the delimiter, the quote character or a character of the line
  terminator.
\<close>

abbreviation comma :: char where
  "comma \<equiv> CHR '',''"

abbreviation dquote :: char where
  "dquote \<equiv> CHR 0x22"

abbreviation CR :: char where
  "CR \<equiv> CHR 0x0D"

definition special :: "char \<Rightarrow> bool" where
  "special c = (c = comma \<or> c = dquote \<or> c = CR \<or> c = newline)"

definition double_quotes :: "string \<Rightarrow> string" where
  "double_quotes field = concat (map (\<lambda>c. if c = dquote then [dquote, dquote] else [c]) field)"

definition csv_field :: "string \<Rightarrow> string" where
  "csv_field field =
     (if list_ex special field then dquote # double_quotes field @ [dquote] else field)"

fun join_fields :: "string list \<Rightarrow> string" where
  "join_fields [] = []"
| "join_fields [x] = x"
| "join_fields (x # y # ys) = x @ comma # join_fields (y # ys)"

text \<open>\<open>writer.writerow\<close>: a row whose only field is empty is written as two quotes.\<close>

definition csv_row :: "string list \<Rightarrow> string" where
  "csv_row row =
     (if row = [[]] then [dquote, dquote] else join_fields (map csv_field row))
     @ [CR, newline]"

definition fieldnames :: "string list" where
  "fieldnames =
     [''repository'', ''project'', ''hash'', ''author_name'', ''date'', ''subject'', ''body'']"

text \<open>The values of a commit in the order of \<open>fieldnames\<close>.\<close>

definition row_of_commit :: "commit \<Rightarrow> string list" where
  "row_of_commit c =
     [repository c, project c, hash c, author_name c, date c, subject c, body c]"

text \<open>What \<open>writeheader\<close> and \<open>writerows\<close> put into the file.\<close>

definition csv_text :: "commit list \<Rightarrow> string" where
  "csv_text commits = csv_row fieldnames @ concat (map (csv_row \<circ> row_of_commit) commits)"

text \<open>
  \<open>save_to_csv\<close>: nothing is written for an empty list; otherwise the file is opened
  and written, which may raise. The second component is the text of the file when it
  was written.
\<close>

definition save_to_csv ::
    "world \<Rightarrow> commit list \<Rightarrow> string \<Rightarrow> (exn + unit) \<times> string option \<times> event list" where
  "save_to_csv w commits output_file =
     (if commits = [] then (Inr (), None, [LogLine WARNING ''No commits to save''])
      else
        (case write_file w output_file of
           Some e \<Rightarrow> (Inl e, None, [])
         | None \<Rightarrow>
             (Inr (), Some (csv_text commits),
              [WriteFile output_file, LogLine INFO ''Exported commits''])))"

subsection \<open>Entry point: \<open>main\<close>\<close>


definition empty_config :: config where
  "empty_config = \<lparr> repositories = [], selected_authors = None, default_filters = None \<rparr>"
















text \<open>The files a run has written.\<close>

definition files_written :: "event list \<Rightarrow> string list" where
  "files_written evs = [p. WriteFile p \<leftarrow> evs]"

subsection \<open>Reading the export back: \<open>csv.reader\<close>\<close>

text \<open>
  The export is re-read by \<open>csv.reader\<close> with the same dialect, over a file opened
  with \<open>newline=''\<close>. Iterating over such a file gives its lines with their endings
  kept, a line ending at LF, at CR LF, or at a CR that no LF follows.
\<close>

fun file_lines :: "string \<Rightarrow> string list" where
  "file_lines [] = []"
| "file_lines (c # cs) =
     (if c = newline then [c] # file_lines cs
      else if c = CR then
        (case cs of
           [] \<Rightarrow> [[c]]
         | d # ds \<Rightarrow> if d = newline then [c, d] # file_lines ds else [c] # file_lines cs)
      else
        (case file_lines cs of
           [] \<Rightarrow> [[c]]
         | l # ls \<Rightarrow> (c # l) # ls))"

text \<open>
  The states of the reader's automaton (the two escape states cannot be entered: the
  dialect has no escape character). A reader is its state, the field being read and
  the fields of the record completed so far. As in CPython 3.11 and later, a NUL
  character is a character like any other; the limit on the size of a field, which
  the caller of the reader sets, is not modelled.
\<close>

datatype rstate =
    START_RECORD | START_FIELD | IN_FIELD | IN_QUOTED_FIELD | QUOTE_IN_QUOTED_FIELD | EAT_CRNL

type_synonym reader = "rstate \<times> string \<times> string list"

text \<open>The case \<open>START_FIELD\<close> of \<open>parse_process_char\<close>; \<open>None\<close> is the end-of-line
  signal the reader gives itself after each line.\<close>

definition start_field :: "string \<Rightarrow> string list \<Rightarrow> char option \<Rightarrow> reader" where
  "start_field fld fs x =
     (case x of
        None \<Rightarrow> (START_RECORD, [], fs @ [fld])
      | Some c \<Rightarrow>
          if c = newline \<or> c = CR then (EAT_CRNL, [], fs @ [fld])
          else if c = dquote then (IN_QUOTED_FIELD, fld, fs)
          else if c = comma then (START_FIELD, [], fs @ [fld])
          else (IN_FIELD, fld @ [c], fs))"

text \<open>\<open>parse_process_char\<close>; the result \<open>None\<close> is \<open>csv.Error\<close>.\<close>

fun parse_process_char :: "reader \<Rightarrow> char option \<Rightarrow> reader option" where
  "parse_process_char (START_RECORD, fld, fs) x =
     (case x of
        None \<Rightarrow> Some (START_RECORD, fld, fs)
      | Some c \<Rightarrow>
          if c = newline \<or> c = CR then Some (EAT_CRNL, fld, fs)
          else Some (start_field fld fs x))"
| "parse_process_char (START_FIELD, fld, fs) x = Some (start_field fld fs x)"
| "parse_process_char (IN_FIELD, fld, fs) x =
     (case x of
        None \<Rightarrow> Some (START_RECORD, [], fs @ [fld])
      | Some c \<Rightarrow>
          if c = newline \<or> c = CR then Some (EAT_CRNL, [], fs @ [fld])
          else if c = comma then Some (START_FIELD, [], fs @ [fld])
          else Some (IN_FIELD, fld @ [c], fs))"
| "parse_process_char (IN_QUOTED_FIELD, fld, fs) x =
     (case x of
        None \<Rightarrow> Some (IN_QUOTED_FIELD, fld, fs)
      | Some c \<Rightarrow>
          if c = dquote then Some (QUOTE_IN_QUOTED_FIELD, fld, fs)
          else Some (IN_QUOTED_FIELD, fld @ [c], fs))"
| "parse_process_char (QUOTE_IN_QUOTED_FIELD, fld, fs) x =
     (case x of
        None \<Rightarrow> Some (START_RECORD, [], fs @ [fld])
      | Some c \<Rightarrow>
          if c = dquote then Some (IN_QUOTED_FIELD, fld @ [c], fs)
          else if c = comma then Some (START_FIELD, [], fs @ [fld])
          else if c = newline \<or> c = CR then Some (EAT_CRNL, [], fs @ [fld])
          else Some (IN_FIELD, fld @ [c], fs))"
| "parse_process_char (EAT_CRNL, fld, fs) x =
     (case x of
        None \<Rightarrow> Some (START_RECORD, fld, fs)
      | Some c \<Rightarrow> if c = newline \<or> c = CR then Some (EAT_CRNL, fld, fs) else None)"

text \<open>One line: its characters in turn, then the end-of-line signal.\<close>

fun process_line :: "reader \<Rightarrow> string \<Rightarrow> reader option" where
  "process_line r [] = parse_process_char r None"
| "process_line r (c # cs) =
     (case parse_process_char r (Some c) of
        None \<Rightarrow> None
      | Some r' \<Rightarrow> process_line r' cs)"

text \<open>
  All the records of the remaining lines (\<open>list(reader)\<close>): a record is complete when a
  line leaves the automaton in \<open>START_RECORD\<close>, and the next one starts from a reset
  reader; when the lines run out inside a quoted field, what was read is the last
  record.
\<close>

fun read_lines :: "reader \<Rightarrow> string list \<Rightarrow> string list list option" where
  "read_lines (st, fld, fs) [] =
     (if fld \<noteq> [] \<or> st = IN_QUOTED_FIELD then Some [fs @ [fld]] else Some [])"
| "read_lines r (l # ls) =
     (case process_line r l of
        None \<Rightarrow> None
      | Some (st, fld, fs) \<Rightarrow>
          if st = START_RECORD
          then map_option ((#) fs) (read_lines (START_RECORD, [], []) ls)
          else read_lines (st, fld, fs) ls)"

definition csv_reader :: "string \<Rightarrow> string list list option" where
  "csv_reader text = read_lines (START_RECORD, [], []) (file_lines text)"

text \<open>
  The same reader run over the text itself: a character ends a line when it is LF, or
  a CR that no LF follows, or the last character of the text. It is used to reason
  about \<open>csv_reader\<close>, with which it agrees.
\<close>

definition line_ends :: "char \<Rightarrow> string \<Rightarrow> bool" where
  "line_ends c cs = (c = newline \<or> (c = CR \<and> (cs = [] \<or> hd cs \<noteq> newline)) \<or> cs = [])"

fun run :: "reader \<Rightarrow> string \<Rightarrow> string list list option" where
  "run (st, fld, fs) [] =
     (if fld \<noteq> [] \<or> st = IN_QUOTED_FIELD then Some [fs @ [fld]] else Some [])"
| "run r (c # cs) =
     (case parse_process_char r (Some c) of
        None \<Rightarrow> None
      | Some r' \<Rightarrow>
          if line_ends c cs
          then
            (case parse_process_char r' None of
               None \<Rightarrow> None
             | Some (st, fld, fs) \<Rightarrow>
                 if st = START_RECORD
                 then map_option ((#) fs) (run (START_RECORD, [], []) cs)
                 else run (st, fld, fs) cs)
          else run r' cs)"

subsection \<open>Notions used to state the properties\<close>

text \<open>A list in descending order of its elements (newest first).\<close>

abbreviation descending :: "'a::linorder list \<Rightarrow> bool" where
  "descending xs \<equiv> sorted_wrt (\<lambda>a b. b \<le> a) xs"

text \<open>
  The timestamp that the specification gives a record: the parsed first 19 characters
  of its raw date, or the current time when they do not parse.
\<close>

definition spec_timestamp :: "timestamp \<Rightarrow> commit \<Rightarrow> timestamp" where
  "spec_timestamp current c =
     (case strptime (take 19 (date c)) of Some t \<Rightarrow> t | None \<Rightarrow> current)"

text \<open>The fields of a line, and the lines that survive the parsing loop.\<close>

definition fields_of :: "string \<Rightarrow> string list" where
  "fields_of line = split_max bar 4 line"

definition survives :: "string \<Rightarrow> bool" where
  "survives line = (4 \<le> length (fields_of line))"

text \<open>
  A well-formed line of log output: one physical line with at least four fields whose
  first (hash) and fourth (subject) fields hold a character that is not whitespace.
\<close>

definition has_text :: "string \<Rightarrow> bool" where
  "has_text s = list_ex (\<lambda>c. \<not> is_space c) s"

definition hash_and_subject_have_text :: "string \<Rightarrow> bool" where
  "hash_and_subject_have_text line =
     (has_text (fields_of line ! 0) \<and> has_text (fields_of line ! 3))"

definition well_formed_line :: "string \<Rightarrow> bool" where
  "well_formed_line line =
     (newline \<notin> set line \<and> survives line \<and> hash_and_subject_have_text line)"

text \<open>A log output consisting of the given lines: \<open>'\n'.join(lines)\<close>.\<close>

fun join_lines :: "string list \<Rightarrow> string" where
  "join_lines [] = []"
| "join_lines [l] = l"
| "join_lines (l # m # ls) = l @ newline # join_lines (m # ls)"

text \<open>
  The ways in which the task of a repository fails: the log command, the clone
  command or the fetch command raises (a timeout or any other exception), the log or
  the clone command exits with a non-zero status, or the workspace cannot be created.
\<close>

definition command_fails :: "exn + completed_process \<Rightarrow> bool" where
  "command_fails r = (case r of Inl _ \<Rightarrow> True | Inr p \<Rightarrow> returncode p \<noteq> 0)"

definition task_fails :: "world \<Rightarrow> filters \<Rightarrow> repo_info \<Rightarrow> bool" where
  "task_fails w f repo =
     (let repo_name = get_default (name repo) ''unknown'';
          repo_url = get_default (url repo) []
      in repo_url \<noteq> [] \<and>
         (if path_exists w repo_url then command_fails (git_log w (log_command f) repo_url)
          else
            (case make_temp w repo of
               Inl _ \<Rightarrow> True
             | Inr temp_dir \<Rightarrow>
                 (let clone_path = path_join temp_dir repo_name
                  in command_fails (git_clone w repo_url clone_path)
                     \<or> isl (git_fetch w clone_path)
                     \<or> command_fails (git_log w (log_command f) clone_path)))))"

text \<open>The events that acquire a workspace or run a clone or a fetch.\<close>

fun clones_or_acquires :: "event \<Rightarrow> bool" where
  "clones_or_acquires (RunGitClone _ _) = True"
| "clones_or_acquires (RunGitFetch _) = True"
| "clones_or_acquires (AcquireTemp _) = True"
| "clones_or_acquires _ = False"

fun is_warning :: "event \<Rightarrow> bool" where
  "is_warning (LogLine WARNING _) = True"
| "is_warning _ = False"




text \<open>
  An example environment: one local repository at \<open>/repo\<close> whose log command prints the
  given text; beside it only the workspace directory exists, no remote can be cloned,
  every file can be written and every line printed, tasks complete in the order
  submitted, nobody interrupts, and it is noon on 4 November 2026.
\<close>

definition local_world :: "string \<Rightarrow> world" where
  "local_world out =
     \<lparr> path_exists = (\<lambda>p. p = ''/repo'' \<or> p = ''/work/temp_git_clone_1''),
       git_log = (\<lambda>cmd cwd. Inr \<lparr> returncode = 0, stdout = out, stderr = [] \<rparr>),
       git_clone = (\<lambda>u p. Inl OtherException),
       git_fetch = (\<lambda>p. Inl OtherException),
       make_temp = (\<lambda>r. Inr ''/work/temp_git_clone_1''),
       rmtree = (\<lambda>d. None),
       rmdir_fallback = (\<lambda>d. Inl OtherException),
       completion_order = (\<lambda>rs. rs),
       now = (\<lambda>k. (2026, 11, 4, 12, 0, 0, k)),
       load_json = (\<lambda>p. Inl OtherException),
       write_file = (\<lambda>p. None),
       print_out = (\<lambda>m. None),
       render_markdown = (\<lambda>cs. Inr ''# Commit History Log''),
       render_html = (\<lambda>cs. Inr ''<!DOCTYPE html>''),
       interrupt_at = None \<rparr>"

definition local_repo :: repo_info where
  "local_repo = \<lparr> name = Some ''repo'', url = Some ''/repo'', project_label = Some ''Demo'' \<rparr>"

definition no_filters :: filters where
  "no_filters = \<lparr> since = None, until = None, author = None, branch = None,
                  parallel_workers = None \<rparr>"

text \<open>A log output with three commits, by Alice, Bob and alice.\<close>

definition three_authors :: string where
  "three_authors =
     ''h1|Alice|2024-01-05 10:00:00 +0000|one|'' @ [newline]
     @ ''h2|Bob|2024-01-06 10:00:00 +0000|two|'' @ [newline]
     @ ''h3|alice|2024-01-07 10:00:00 +0000|three|''"

text \<open>
  A log output of five physical lines: a commit with a body (and blanks before the
  hash), a continuation line of that body that holds three delimiters, an empty line,
  a line with three fields, and a commit without body field.
\<close>

definition sample_log :: string where
  "sample_log =
     ''  h1|Ann|2024-01-05 10:00:00 +0000|first subject|first body'' @ [newline]
     @ ''| a | b | c |'' @ [newline]
     @ [newline]
     @ ''x|y|z'' @ [newline]
     @ ''h2|Bob|2024-01-06 10:00:00 +0000|no body'' @ [newline]"

text \<open>
  A log output of two commits as \<open>git log\<close> prints them: the body of the first commit
  holds a table row on a line of its own, and the second commit has an empty message.
\<close>

definition table_in_body :: string where
  "table_in_body =
     ''0a1b2c3|Ann|2024-01-05 10:00:00 +0000|Add table|Columns:'' @ [newline]
     @ ''| id | name | kind |'' @ [newline]
     @ [newline]
     @ ''9f8e7d6|Bob|2024-01-04 09:00:00 +0000||''"

text \<open>Two well-formed lines.\<close>

definition two_lines :: "string list" where
  "two_lines =
     [''0a1b2c3|Ann|2024-01-05 10:00:00 +0000|Add table|Columns'',
      ''9f8e7d6|Bob|2024-01-04 09:00:00 +0000|Fix typo'']"

text \<open>A remote repository, which does not exist as a local path.\<close>

definition remote_repo :: repo_info where
  "remote_repo =
     \<lparr> name = Some ''remote'', url = Some ''https://example.org/remote.git'',
       project_label = None \<rparr>"

text \<open>
  A log output of two commits; the author name of the first one holds the delimiter,
  so the third field of its line is not the date.
\<close>

definition piped_author :: string where
  "piped_author =
     ''a1b2c3d|Ann|(bot)|2024-01-05 10:00:00 +0000|Update lock file|'' @ [newline]
     @ ''e4f5a6b|Bob|2024-01-04 09:00:00 +0000|Fix typo|''"



text \<open>A commit whose fields hold a comma, quotes, and line breaks of each kind.\<close>

definition awkward_commit :: commit where
  "awkward_commit =
     \<lparr> repository = ''tools,core'', project = ''Demo'', hash = ''0a1b2c3'',
       author_name = [CHR ''A'', dquote, CHR ''n'', dquote],
       date = ''2024-01-05 10:00:00 +0000'',
       subject = [CHR ''a'', CR, CHR ''b'', CR, newline, CHR ''c'', newline, CR],
       body = [] \<rparr>"

section \<open>Properties\<close>

subsection \<open>Splitting and stripping\<close>

lemma strip_empty_iff: "strip s = [] \<longleftrightarrow> (\<forall>c\<in>set s. is_space c)"
proof -
  have "strip s = [] \<longleftrightarrow> (\<forall>c\<in>set (dropWhile is_space s). is_space c)"
    by (simp add: strip_def)
  also have "\<dots> \<longleftrightarrow> dropWhile is_space s = []"
    by (metis dropWhile_eq_Nil_conv dropWhile_idem)
  finally show ?thesis by simp
qed

lemma split_max_Suc_if:
  "split_max sep (Suc n) s =
     (if sep \<in> set s
      then takeWhile (\<lambda>c. c \<noteq> sep) s # split_max sep n (tl (dropWhile (\<lambda>c. c \<noteq> sep) s))
      else [s])"
proof (cases "dropWhile (\<lambda>c. c \<noteq> sep) s")
  case Nil
  then have "sep \<notin> set s" by auto
  then show ?thesis by (simp only: split_max.simps Nil list.case if_False)
next
  case (Cons x rest)
  have "sep \<in> set s"
  proof (rule ccontr)
    assume "sep \<notin> set s"
    then have "dropWhile (\<lambda>c. c \<noteq> sep) s = []" by auto
    with Cons show False by simp
  qed
  then show ?thesis by (simp only: split_max.simps Cons list.case if_True list.sel)
qed

declare split_max.simps(2) [simp del]

lemma split_max_no_sep: "sep \<notin> set s \<Longrightarrow> split_max sep n s = [s]"
  by (cases n) (simp_all add: split_max_Suc_if)

lemma count_list_sep_split:
  assumes "sep \<in> set s"
  shows "count_list s sep = Suc (count_list (tl (dropWhile (\<lambda>c. c \<noteq> sep) s)) sep)"
  using assms by (induction s) (auto simp: count_list_0_iff)

lemma length_dropWhile_tl:
  assumes "sep \<in> set s"
  shows "length (tl (dropWhile (\<lambda>c. c \<noteq> sep) s)) < length s"
  using assms by (induction s) (auto simp: less_Suc_eq)

lemma length_split_max:
  "length (split_max sep n s) = Suc (min n (count_list s sep))"
proof (induction n arbitrary: s)
  case 0
  show ?case by simp
next
  case (Suc n)
  show ?case
  proof (cases "sep \<in> set s")
    case True
    then show ?thesis
      using Suc.IH count_list_sep_split[OF True]
      by (simp add: split_max_Suc_if)
  next
    case False
    then have "count_list s sep = 0" by (simp add: count_list_0_iff)
    with False show ?thesis by (simp add: split_max_Suc_if)
  qed
qed

lemma split_max_enough: "length s \<le> n \<Longrightarrow> split_max sep (Suc n) s = split_max sep n s"
proof (induction n arbitrary: s)
  case 0
  then show ?case by (simp add: split_max_Suc_if)
next
  case (Suc n)
  show ?case
  proof (cases "sep \<in> set s")
    case True
    from length_dropWhile_tl[OF True] Suc.prems
    have "length (tl (dropWhile (\<lambda>c. c \<noteq> sep) s)) \<le> n" by simp
    from Suc.IH[OF this] True show ?thesis
      by (simp add: split_max_Suc_if[of sep "Suc n"] split_max_Suc_if[of sep n s])
  next
    case False
    then show ?thesis by (simp add: split_max_no_sep)
  qed
qed

lemma split_max_enough': "length s \<le> n \<Longrightarrow> split_max sep n s = split_max sep (length s) s"
proof (induction "n - length s" arbitrary: n)
  case 0
  then show ?case by simp
next
  case (Suc d)
  then obtain m where m: "n = Suc m" "length s \<le> m" "d = m - length s"
    by (cases n) auto
  from Suc.hyps(1)[OF m(3) m(2)] split_max_enough[OF m(2)] m(1) show ?case by simp
qed

lemma split_all_Nil: "split_all sep [] = [[]]"
  by (simp add: split_all_def)

lemma split_all_Cons:
  "split_all sep (c # s) =
     (if c = sep then [] # split_all sep s
      else (c # hd (split_all sep s)) # tl (split_all sep s))"
proof (cases "c = sep")
  case True
  then show ?thesis by (simp add: split_all_def split_max_Suc_if)
next
  case False
  show ?thesis
  proof (cases "sep \<in> set s")
    case notin: False
    then have "sep \<notin> set (c # s)" using False by simp
    then show ?thesis using False notin by (simp add: split_all_def split_max_no_sep)
  next
    case True
    let ?r = "tl (dropWhile (\<lambda>c. c \<noteq> sep) s)"
    obtain m where m: "length s = Suc m" using True by (cases s) auto
    have r: "length ?r \<le> m" using length_dropWhile_tl[OF True] m by simp
    have "split_max sep (Suc m) ?r = split_max sep m ?r"
      using r by (rule split_max_enough)
    then show ?thesis using False True m
      by (simp add: split_all_def split_max_Suc_if)
  qed
qed

lemma split_all_not_Nil: "split_all sep s \<noteq> []"
  by (cases s) (simp_all add: split_all_Nil split_all_Cons)


subsection \<open>The traces of the extractor\<close>

lemma get_commit_history_events:
  "list_all (\<lambda>e. \<not> clones_or_acquires e) (snd (get_commit_history w p n pr f))"
  by (simp add: get_commit_history_def Let_def split: sum.splits exn.splits)

lemma get_commit_history_runs_log:
  "RunGitLog (log_command f) p \<in> set (snd (get_commit_history w p n pr f))"
  by (simp add: get_commit_history_def Let_def split: sum.splits exn.splits)


subsection \<open>Repository Fetcher\<close>

text \<open>
  C10. A repository descriptor whose \<open>url\<close> is missing or empty makes
  \<open>_process_repository\<close> return the empty list of records at once: the only action is
  the error line sent to the logger, so no clone, fetch or log command is run, and
  the descriptor contributes no commit to the collection.
\<close>

theorem missing_url_yields_nothing:
  assumes "url repo = None \<or> url repo = Some []"
  shows "process_repository w repo f = (Inr [], [LogLine ERROR ''No URL provided for repository''])
         \<and> collect_result w f repo = []"
  using assms by (auto simp: process_repository_def collect_result_def)

theorem missing_url_yields_nothing_witness:
  "process_repository (local_world ''a|b|c|d'') \<lparr> name = Some ''x'', url = Some [], project_label = None \<rparr> no_filters
     = (Inr [], [LogLine ERROR ''No URL provided for repository''])
   \<and> collect_result (local_world ''a|b|c|d'') no_filters \<lparr> name = Some ''x'', url = Some [], project_label = None \<rparr> = []"
  using missing_url_yields_nothing
    [of "\<lparr> name = Some ''x'', url = Some [], project_label = None \<rparr>" "local_world ''a|b|c|d''" no_filters]
  by simp


text \<open>
  C8. When the \<open>url\<close> of a descriptor is an existing local path,
  \<open>_process_repository\<close> returns what the extractor finds in that path itself: the log
  command runs with the path as working directory, and the trace holds no clone, no
  fetch and no acquisition of a workspace directory.
\<close>

theorem local_path_used_directly:
  assumes "url repo = Some u" and "u \<noteq> []" and "path_exists w u"
  shows "fst (process_repository w repo f)
           = Inr (fst (get_commit_history w u (get_default (name repo) ''unknown'')
                        (get_default (project_label repo) ''Unknown'') f))
         \<and> list_all (\<lambda>e. \<not> clones_or_acquires e) (snd (process_repository w repo f))
         \<and> RunGitLog (log_command f) u \<in> set (snd (process_repository w repo f))"
  using assms get_commit_history_events[of w u] get_commit_history_runs_log[of f u w]
  by (simp add: process_repository_def Let_def split_beta)

theorem local_path_used_directly_witness:
  "fst (process_repository (local_world ''a|b|c|d'') local_repo no_filters)
           = Inr (fst (get_commit_history (local_world ''a|b|c|d'') ''/repo'' ''repo'' ''Demo'' no_filters))
         \<and> list_all (\<lambda>e. \<not> clones_or_acquires e) (snd (process_repository (local_world ''a|b|c|d'') local_repo no_filters))
         \<and> RunGitLog (log_command no_filters) ''/repo'' \<in> set (snd (process_repository (local_world ''a|b|c|d'') local_repo no_filters))"
  using local_path_used_directly[of local_repo "''/repo''" "local_world ''a|b|c|d''" no_filters]
  by (simp add: local_repo_def local_world_def)


subsection \<open>Workspace Manager\<close>

text \<open>
  C9, as the claim states it, fails: when \<open>shutil.rmtree\<close> raises \<open>PermissionError\<close> and
  the forced-deletion command then fails by exiting with a non-zero status (here 1,
  the status of \<open>rmdir\<close> without operand under a POSIX shell), \<open>_cleanup_directory\<close>
  logs no warning: the command is run with \<open>check=False\<close>, its status is not looked at,
  and the line logged is the INFO line that reports a cleanup.
\<close>

theorem fallback_exit_status_ignored_counterexample:
  "rmtree ((local_world [])\<lparr> rmtree := (\<lambda>d. Some PermissionError),
        rmdir_fallback := (\<lambda>d. Inr \<lparr> returncode = 1, stdout = [], stderr = ''rmdir: missing operand'' \<rparr>) \<rparr>)
       ''/work/temp_git_clone_1'' = Some PermissionError
   \<and> command_fails (rmdir_fallback ((local_world [])\<lparr> rmtree := (\<lambda>d. Some PermissionError),
        rmdir_fallback := (\<lambda>d. Inr \<lparr> returncode = 1, stdout = [], stderr = ''rmdir: missing operand'' \<rparr>) \<rparr>)
       ''/work/temp_git_clone_1'')
   \<and> \<not> list_ex is_warning (snd (cleanup_directory
        ((local_world [])\<lparr> rmtree := (\<lambda>d. Some PermissionError),
        rmdir_fallback := (\<lambda>d. Inr \<lparr> returncode = 1, stdout = [], stderr = ''rmdir: missing operand'' \<rparr>) \<rparr>)
        ''/work/temp_git_clone_1''))"
  by (simp add: local_world_def cleanup_directory_def command_fails_def)


text \<open>
  C9, amended. \<open>_cleanup_directory\<close> never raises to its caller. The forced-deletion
  command is run at most once, and exactly when the directory exists and
  \<open>shutil.rmtree\<close> raised \<open>PermissionError\<close>. A warning is logged when that command
  itself raises, and when \<open>shutil.rmtree\<close> raises any other exception; when the command
  returns, whatever its exit status, no warning is logged.
\<close>

theorem cleanup_never_raises:
  "fst (cleanup_directory w d) = Inr ()
   \<and> length (filter (\<lambda>e. e = RunRmdirFallback d) (snd (cleanup_directory w d))) \<le> 1
   \<and> (RunRmdirFallback d \<in> set (snd (cleanup_directory w d))
        \<longleftrightarrow> path_exists w d \<and> rmtree w d = Some PermissionError)
   \<and> (path_exists w d \<and> rmtree w d = Some PermissionError \<and> isl (rmdir_fallback w d)
        \<longrightarrow> list_ex is_warning (snd (cleanup_directory w d)))
   \<and> (path_exists w d \<and> rmtree w d \<noteq> None \<and> rmtree w d \<noteq> Some PermissionError
        \<longrightarrow> list_ex is_warning (snd (cleanup_directory w d)))
   \<and> (path_exists w d \<and> rmtree w d = Some PermissionError \<and> \<not> isl (rmdir_fallback w d)
        \<longrightarrow> \<not> list_ex is_warning (snd (cleanup_directory w d)))"
  by (auto simp: cleanup_directory_def split: option.splits exn.splits sum.splits)

theorem cleanup_never_raises_witness:
  "fst (cleanup_directory ((local_world [])\<lparr> rmtree := (\<lambda>d. Some PermissionError) \<rparr>)
         ''/work/temp_git_clone_1'') = Inr ()
   \<and> list_ex is_warning (snd (cleanup_directory
         ((local_world [])\<lparr> rmtree := (\<lambda>d. Some PermissionError) \<rparr>) ''/work/temp_git_clone_1''))
   \<and> RunRmdirFallback ''/work/temp_git_clone_1'' \<in> set (snd (cleanup_directory
         ((local_world [])\<lparr> rmtree := (\<lambda>d. Some PermissionError) \<rparr>) ''/work/temp_git_clone_1''))"
  using cleanup_never_raises
    [of "(local_world [])\<lparr> rmtree := (\<lambda>d. Some PermissionError) \<rparr>" "''/work/temp_git_clone_1''"]
  by (simp add: local_world_def)


subsection \<open>Collection Orchestrator: the author filter\<close>

lemma mset_sort_reverse: "mset (sort_reverse k xs) = mset xs"
  by (simp add: sort_reverse_def)

lemma set_sort_reverse: "set (sort_reverse k xs) = set xs"
  by (simp add: sort_reverse_def)


text \<open>
  C3. Given a worker pool of positive size, \<open>export_history\<close> returns, and with a
  configured, non-empty allow-list its result holds exactly the collected records
  whose \<open>author_name\<close> is an element of the list (equality of strings, so case
  matters), each as often as it was collected; with the list absent or empty, the
  result holds every collected record.
\<close>

theorem author_allow_list:
  assumes "0 < pool_workers f"
  shows "\<exists>result. export_history w cfg repos f = Inr result
     \<and> (selected_authors cfg = Some authors \<and> authors \<noteq> [] \<longrightarrow>
          mset result = filter_mset (\<lambda>c. author_name c \<in> set authors) (mset (gather w f repos))
          \<and> set result = {c \<in> set (gather w f repos). author_name c \<in> set authors})
     \<and> (selected_authors cfg = None \<or> selected_authors cfg = Some [] \<longrightarrow>
          mset result = mset (gather w f repos))"
  using assms
  by (auto simp: export_history_def filter_authors_def mset_sort_reverse set_sort_reverse)

theorem author_allow_list_witness:
  "0 < pool_workers no_filters
   \<and> selected_authors (empty_config\<lparr>selected_authors := Some [''Alice'']\<rparr>) = Some [''Alice'']
   \<and> map author_name (gather (local_world three_authors) no_filters [local_repo])
       = [''Alice'', ''Bob'', ''alice'']
   \<and> export_history (local_world three_authors)
        (empty_config\<lparr>selected_authors := Some [''Alice'']\<rparr>) [local_repo] no_filters
       = Inr [\<lparr> repository = ''repo'', project = ''Demo'', hash = ''h1'', author_name = ''Alice'',
            date = ''2024-01-05 10:00:00 +0000'', subject = ''one'', body = [] \<rparr>]"
proof -
  have p: "0 < pool_workers no_filters"
    by (simp add: pool_workers_def no_filters_def)
  have g: "map author_name (gather (local_world three_authors) no_filters [local_repo])
       = [''Alice'', ''Bob'', ''alice'']"
    by code_simp
  have e: "export_history (local_world three_authors)
        (empty_config\<lparr>selected_authors := Some [''Alice'']\<rparr>) [local_repo] no_filters
       = Inr [\<lparr> repository = ''repo'', project = ''Demo'', hash = ''h1'', author_name = ''Alice'',
            date = ''2024-01-05 10:00:00 +0000'', subject = ''one'', body = [] \<rparr>]"
    by code_simp
  show ?thesis
    using author_allow_list[OF p, of "local_world three_authors"
        "empty_config\<lparr>selected_authors := Some [''Alice'']\<rparr>" "[local_repo]" "[''Alice'']"]
      p g e
    by simp
qed

subsection \<open>History Extractor\<close>

lemma is_space_not_bar: "is_space c \<Longrightarrow> c \<noteq> bar"
  by (auto simp: is_space_def)

lemma survives_iff: "survives l \<longleftrightarrow> 3 \<le> count_list l bar"
  by (simp add: survives_def fields_of_def length_split_max)

lemma survives_has_bar: "survives l \<Longrightarrow> bar \<in> set l"
  by (auto simp: survives_iff count_list_0_iff dest!: leD intro: ccontr)

lemma survives_not_blank: "survives l \<Longrightarrow> strip l \<noteq> []"
  using survives_has_bar[of l] is_space_not_bar by (auto simp: strip_empty_iff)

lemma commit_of_line_if:
  "commit_of_line rn rp l =
     (if survives l then Some (commit_of_parts rn rp (fields_of l)) else None)"
  using survives_not_blank[of l]
  by (auto simp: commit_of_line_def Let_def survives_def fields_of_def)

lemma map_filter_if:
  "List.map_filter (\<lambda>x. if P x then Some (g x) else None) xs = map g (filter P xs)"
  by (induction xs) (simp_all add: List.map_filter_simps)

lemma parse_log_eq:
  "parse_log rn rp out =
     map (\<lambda>l. commit_of_parts rn rp (fields_of l))
       (filter survives (split_all newline (strip out)))"
  by (simp add: parse_log_def commit_of_line_if[abs_def] map_filter_if)

lemma strip_induct [consumes 1, case_names leading trailing]:
  assumes "\<Phi> s"
    and lead: "\<And>c t. is_space c \<Longrightarrow> \<Phi> (c # t) \<Longrightarrow> \<Phi> t"
    and trail: "\<And>c t. is_space c \<Longrightarrow> \<Phi> (t @ [c]) \<Longrightarrow> \<Phi> t"
  shows "\<Phi> (strip s)"
proof -
  have a: "\<Phi> t \<Longrightarrow> \<Phi> (dropWhile is_space t)" for t
    by (induction t) (auto intro: lead)
  have b: "\<Phi> (rev u) \<Longrightarrow> \<Phi> (rev (dropWhile is_space u))" for u
    by (induction u) (auto intro: trail)
  have "\<Phi> (rev (rev (dropWhile is_space s)))" using a[OF assms(1)] by simp
  from b[OF this] show ?thesis by (simp add: strip_def)
qed

lemma split_all_snoc:
  "split_all sep (s @ [c]) =
     (if c = sep then split_all sep s @ [[]]
      else butlast (split_all sep s) @ [last (split_all sep s) @ [c]])"
proof (induction s)
  case Nil
  show ?case by (simp add: split_all_Cons split_all_Nil)
next
  case (Cons a s)
  have ne: "split_all sep s \<noteq> []" by (rule split_all_not_Nil)
  have ne': "split_all sep (s @ [c]) \<noteq> []" by (rule split_all_not_Nil)
  show ?case
  proof (cases "a = sep")
    case True
    then show ?thesis using Cons ne by (simp add: split_all_Cons)
  next
    case False
    show ?thesis
    proof (cases "split_all sep s")
      case Nil
      with ne show ?thesis by simp
    next
      case (Cons l ls)
      then show ?thesis using False Cons.IH
        by (cases ls) (auto simp: split_all_Cons)
    qed
  qed
qed

lemma split_max_not_Nil: "split_max sep n s \<noteq> []"
  using length_split_max[of sep n s] by auto

lemma split_max_Cons_nonsep:
  "c \<noteq> sep \<Longrightarrow>
   split_max sep n (c # s) = (c # hd (split_max sep n s)) # tl (split_max sep n s)"
  by (cases n) (simp_all add: split_max_Suc_if)

lemma split_max_snoc_nonsep:
  "c \<noteq> sep \<Longrightarrow>
   split_max sep n (s @ [c]) =
     butlast (split_max sep n s) @ [last (split_max sep n s) @ [c]]"
proof (induction n arbitrary: s)
  case 0
  show ?case by simp
next
  case (Suc n)
  show ?case
  proof (cases "sep \<in> set s")
    case True
    have t: "takeWhile (\<lambda>x. x \<noteq> sep) (s @ [c]) = takeWhile (\<lambda>x. x \<noteq> sep) s"
      using True by (simp add: takeWhile_append1)
    have d: "tl (dropWhile (\<lambda>x. x \<noteq> sep) (s @ [c])) = tl (dropWhile (\<lambda>x. x \<noteq> sep) s) @ [c]"
      using True by (induction s) auto
    show ?thesis using True Suc.IH[OF Suc.prems] split_max_not_Nil[of sep n]
      by (simp add: split_max_Suc_if t d)
  next
    case False
    then show ?thesis using Suc.prems by (simp add: split_max_Suc_if)
  qed
qed

lemma count_surviving_front:
  assumes "is_space c"
  shows "length (filter survives (split_all newline (c # t)))
       = length (filter survives (split_all newline t))"
proof (cases "c = newline")
  case True
  then show ?thesis by (simp add: split_all_Cons survives_iff)
next
  case False
  obtain l ls where L: "split_all newline t = l # ls"
    using split_all_not_Nil[of newline t] by (cases "split_all newline t") auto
  have "survives (c # l) = survives l"
    using is_space_not_bar[OF assms] by (simp add: survives_iff)
  then show ?thesis using False L by (simp add: split_all_Cons)
qed

lemma count_surviving_back:
  assumes "is_space c"
  shows "length (filter survives (split_all newline (t @ [c])))
       = length (filter survives (split_all newline t))"
proof (cases "c = newline")
  case True
  then show ?thesis by (simp add: split_all_snoc survives_iff)
next
  case False
  have ne: "split_all newline t \<noteq> []" by (rule split_all_not_Nil)
  have s: "survives (last (split_all newline t) @ [c]) = survives (last (split_all newline t))"
    using is_space_not_bar[OF assms] by (simp add: survives_iff)
  have "length (filter survives (split_all newline t))
      = length (filter survives (butlast (split_all newline t) @ [last (split_all newline t)]))"
    using ne by simp
  also have "\<dots> = length (filter survives (butlast (split_all newline t) @ [last (split_all newline t) @ [c]]))"
    using s by simp
  finally show ?thesis using False by (simp add: split_all_snoc)
qed

lemma count_surviving_strip:
  "length (filter survives (split_all newline (strip out)))
     = length (filter survives (split_all newline out))"
proof -
  define N where "N = length (filter survives (split_all newline out))"
  have "length (filter survives (split_all newline out)) = N" by (simp add: N_def)
  then have "length (filter survives (split_all newline (strip out))) = N"
    by (induction rule: strip_induct) (simp_all add: count_surviving_front count_surviving_back)
  then show ?thesis by (simp add: N_def)
qed

lemma length_fields_of: "length (fields_of l) \<le> 5"
  by (simp add: fields_of_def length_split_max)


text \<open>
  C2. When the log command succeeds, the extractor cuts its output (stripped of
  leading and trailing whitespace) into physical lines, cuts each line at the first
  four \<open>|\<close> into at most five fields, drops every line with fewer than four fields and
  builds exactly one record from each of the other lines, in order; the records are as
  many as the physical lines of the unstripped output that have at least four fields;
  the body of a record is empty when there are four fields and the fifth field when
  there are five.
\<close>

theorem extractor_one_record_per_surviving_line:
  assumes "git_log w (log_command f) path = Inr r" and "returncode r = 0"
  shows "fst (get_commit_history w path rn rp f)
           = map (\<lambda>l. commit_of_parts rn rp (split_max bar 4 l))
               (filter (\<lambda>l. 4 \<le> length (split_max bar 4 l))
                  (split_all newline (strip (stdout r))))
         \<and> length (fst (get_commit_history w path rn rp f))
           = length (filter (\<lambda>l. 4 \<le> length (split_max bar 4 l))
                       (split_all newline (stdout r)))
         \<and> (\<forall>l. length (split_max bar 4 l) \<le> 5)
         \<and> (\<forall>ps. length ps = 4 \<longrightarrow> body (commit_of_parts rn rp ps) = [])
         \<and> (\<forall>ps. length ps = 5 \<longrightarrow> body (commit_of_parts rn rp ps) = ps ! 4)"
proof -
  have p: "fst (get_commit_history w path rn rp f) = parse_log rn rp (stdout r)"
    using assms by (simp add: get_commit_history_def)
  have s: "survives = (\<lambda>l. 4 \<le> length (split_max bar 4 l))"
    by (simp add: survives_def[abs_def] fields_of_def)
  have f: "fields_of = split_max bar 4"
    by (simp add: fields_of_def[abs_def])
  have 1: "fst (get_commit_history w path rn rp f)
           = map (\<lambda>l. commit_of_parts rn rp (split_max bar 4 l))
               (filter (\<lambda>l. 4 \<le> length (split_max bar 4 l))
                  (split_all newline (strip (stdout r))))"
    using parse_log_eq[of rn rp "stdout r"] by (simp add: p s f)
  have 2: "length (fst (get_commit_history w path rn rp f))
           = length (filter (\<lambda>l. 4 \<le> length (split_max bar 4 l))
                       (split_all newline (stdout r)))"
    using count_surviving_strip[of "stdout r"] by (simp add: 1 s)
  have 3: "\<forall>l. length (split_max bar 4 l) \<le> 5"
    by (simp add: length_split_max)
  have 4: "\<forall>ps. length ps = 4 \<longrightarrow> body (commit_of_parts rn rp ps) = []"
    by (simp add: commit_of_parts_def)
  have 5: "\<forall>ps. length ps = 5 \<longrightarrow> body (commit_of_parts rn rp ps) = ps ! 4"
    by (simp add: commit_of_parts_def)
  from 1 2 3 4 5 show ?thesis by blast
qed

theorem extractor_one_record_per_surviving_line_witness:
  "git_log (local_world sample_log) (log_command no_filters) ''/repo''
     = Inr \<lparr> returncode = 0, stdout = sample_log, stderr = [] \<rparr>
   \<and> fst (get_commit_history (local_world sample_log) ''/repo'' ''repo'' ''Demo'' no_filters)
     = [\<lparr> repository = ''repo'', project = ''Demo'', hash = ''h1'', author_name = ''Ann'',
          date = ''2024-01-05 10:00:00 +0000'', subject = ''first subject'',
          body = ''first body'' \<rparr>,
        \<lparr> repository = ''repo'', project = ''Demo'', hash = [], author_name = '' a '',
          date = '' b '', subject = '' c '', body = [] \<rparr>,
        \<lparr> repository = ''repo'', project = ''Demo'', hash = ''h2'', author_name = ''Bob'',
          date = ''2024-01-06 10:00:00 +0000'', subject = ''no body'', body = [] \<rparr>]
   \<and> length (filter (\<lambda>l. 4 \<le> length (split_max bar 4 l)) (split_all newline sample_log)) = 3"
proof -
  have g: "git_log (local_world sample_log) (log_command no_filters) ''/repo''
     = Inr \<lparr> returncode = 0, stdout = sample_log, stderr = [] \<rparr>"
    by (simp add: local_world_def)
  have v: "map (\<lambda>l. commit_of_parts ''repo'' ''Demo'' (split_max bar 4 l))
               (filter (\<lambda>l. 4 \<le> length (split_max bar 4 l))
                  (split_all newline (strip sample_log)))
     = [\<lparr> repository = ''repo'', project = ''Demo'', hash = ''h1'', author_name = ''Ann'',
          date = ''2024-01-05 10:00:00 +0000'', subject = ''first subject'',
          body = ''first body'' \<rparr>,
        \<lparr> repository = ''repo'', project = ''Demo'', hash = [], author_name = '' a '',
          date = '' b '', subject = '' c '', body = [] \<rparr>,
        \<lparr> repository = ''repo'', project = ''Demo'', hash = ''h2'', author_name = ''Bob'',
          date = ''2024-01-06 10:00:00 +0000'', subject = ''no body'', body = [] \<rparr>]"
    by code_simp
  note T = extractor_one_record_per_surviving_line[OF g, of "''repo''" "''Demo''", simplified]
  from T have a: "fst (get_commit_history (local_world sample_log) ''/repo'' ''repo'' ''Demo'' no_filters)
     = map (\<lambda>l. commit_of_parts ''repo'' ''Demo'' (split_max bar 4 l))
               (filter (\<lambda>l. 4 \<le> length (split_max bar 4 l))
                  (split_all newline (strip sample_log)))"
    by blast
  from T have b: "length (fst (get_commit_history (local_world sample_log) ''/repo'' ''repo'' ''Demo'' no_filters))
     = length (filter (\<lambda>l. 4 \<le> length (split_max bar 4 l)) (split_all newline sample_log))"
    by blast
  show ?thesis
    by (simp only: b[symmetric] a v g) simp
qed

subsection \<open>Well-formed log output\<close>

lemma has_text_Cons: "is_space c \<Longrightarrow> has_text (c # x) \<Longrightarrow> has_text x"
  by (simp add: has_text_def)

lemma has_text_snoc: "is_space c \<Longrightarrow> has_text (x @ [c]) \<Longrightarrow> has_text x"
  by (auto simp: has_text_def list_ex_iff)

lemma has_text_not_Nil: "has_text x \<Longrightarrow> x \<noteq> []"
  by (auto simp: has_text_def)

lemma text_kept_front:
  assumes c: "is_space c" and s: "survives l" and h: "hash_and_subject_have_text (c # l)"
  shows "hash_and_subject_have_text l"
proof -
  let ?F = "fields_of l"
  have len: "4 \<le> length ?F" using s by (simp add: survives_def)
  have F: "fields_of (c # l) = (c # hd ?F) # tl ?F"
    using is_space_not_bar[OF c] by (simp add: fields_of_def split_max_Cons_nonsep)
  obtain a F' where FF: "?F = a # F'" using len by (cases ?F) auto
  have "has_text (c # a)" and "has_text (F' ! 2)"
    using h len by (simp_all add: hash_and_subject_have_text_def F FF nth_Cons')
  then show ?thesis using has_text_Cons[OF c]
    by (simp add: hash_and_subject_have_text_def FF nth_Cons')
qed

lemma text_kept_back:
  assumes c: "is_space c" and s: "survives l" and h: "hash_and_subject_have_text (l @ [c])"
  shows "hash_and_subject_have_text l"
proof -
  let ?F = "fields_of l"
  have len: "4 \<le> length ?F" using s by (simp add: survives_def)
  have F: "fields_of (l @ [c]) = butlast ?F @ [last ?F @ [c]]"
    using is_space_not_bar[OF c] by (simp add: fields_of_def split_max_snoc_nonsep)
  have ne: "?F \<noteq> []" using len by auto
  have 0: "(butlast ?F @ [last ?F @ [c]]) ! 0 = ?F ! 0"
    using len by (simp add: nth_append nth_butlast)
  have "has_text (?F ! 3)"
  proof (cases "length ?F = 4")
    case True
    then have "(butlast ?F @ [last ?F @ [c]]) ! 3 = ?F ! 3 @ [c]"
      using ne by (simp add: nth_append last_conv_nth)
    then show ?thesis using h has_text_snoc[OF c]
      by (simp add: hash_and_subject_have_text_def F)
  next
    case False
    then have "3 < length ?F - 1" using len by arith
    then have "(butlast ?F @ [last ?F @ [c]]) ! 3 = ?F ! 3"
      by (simp add: nth_append nth_butlast)
    then show ?thesis using h by (simp add: hash_and_subject_have_text_def F)
  qed
  then show ?thesis using h 0 by (simp add: hash_and_subject_have_text_def F)
qed

lemma well_formed_strip:
  assumes "\<forall>l\<in>set (split_all newline out). survives l \<longrightarrow> hash_and_subject_have_text l"
  shows "\<forall>l\<in>set (split_all newline (strip out)). survives l \<longrightarrow> hash_and_subject_have_text l"
  using assms
proof (induction rule: strip_induct)
  case (leading c t)
  obtain l ls where L: "split_all newline t = l # ls"
    using split_all_not_Nil[of newline t] by (cases "split_all newline t") auto
  show ?case
  proof (cases "c = newline")
    case True
    then show ?thesis using leading(2) by (simp add: split_all_Cons)
  next
    case False
    have sv: "survives (c # l) = survives l"
      using is_space_not_bar[OF leading(1)] by (simp add: survives_iff)
    show ?thesis using leading(2) False L sv text_kept_front[OF leading(1), of l]
      by (auto simp: split_all_Cons)
  qed
next
  case (trailing c t)
  have ne: "split_all newline t \<noteq> []" by (rule split_all_not_Nil)
  let ?L = "split_all newline t"
  show ?case
  proof (cases "c = newline")
    case True
    then show ?thesis using trailing(2) by (simp add: split_all_snoc)
  next
    case False
    have sv: "survives (last ?L @ [c]) = survives (last ?L)"
      using is_space_not_bar[OF trailing(1)] by (simp add: survives_iff)
    have *: "\<forall>l\<in>set (butlast ?L @ [last ?L @ [c]]). survives l \<longrightarrow> hash_and_subject_have_text l"
      using trailing(2) False by (simp add: split_all_snoc)
    show ?thesis
    proof (intro ballI impI)
      fix l assume l: "l \<in> set ?L" and s: "survives l"
      from l ne have "l \<in> set (butlast ?L) \<or> l = last ?L"
        by (metis append_butlast_last_id insert_iff list.simps(15) rotate1.simps(2) set_rotate1)
      then show "hash_and_subject_have_text l"
      proof
        assume "l \<in> set (butlast ?L)"
        then show ?thesis using * s by simp
      next
        assume e: "l = last ?L"
        then have "hash_and_subject_have_text (l @ [c])" using * s sv by simp
        from text_kept_back[OF trailing(1) s this] show ?thesis .
      qed
    qed
  qed
qed

lemma split_all_append_sep:
  "sep \<notin> set l \<Longrightarrow> split_all sep (l @ sep # r) = l # split_all sep r"
  by (induction l) (auto simp: split_all_Cons)

lemma split_all_no_sep: "sep \<notin> set l \<Longrightarrow> split_all sep l = [l]"
  by (simp add: split_all_def split_max_no_sep)

lemma split_all_join_lines:
  "ls \<noteq> [] \<Longrightarrow> \<forall>l\<in>set ls. newline \<notin> set l \<Longrightarrow> split_all newline (join_lines ls) = ls"
  by (induction ls rule: join_lines.induct)
     (simp_all add: split_all_no_sep split_all_append_sep)

lemma parse_log_well_formed:
  assumes wf: "\<forall>l\<in>set ls. well_formed_line l"
  shows "length (parse_log rn rp (join_lines ls)) = length ls"
    and "\<forall>c\<in>set (parse_log rn rp (join_lines ls)). hash c \<noteq> [] \<and> subject c \<noteq> []"
proof -
  let ?out = "join_lines ls"
  have lines: "filter survives (split_all newline ?out) = ls"
  proof (cases "ls = []")
    case True
    then show ?thesis by (simp add: split_all_Nil survives_iff)
  next
    case False
    have "split_all newline ?out = ls"
      using False wf by (intro split_all_join_lines) (auto simp: well_formed_line_def)
    then show ?thesis using wf by (simp add: well_formed_line_def filter_id_conv)
  qed
  show "length (parse_log rn rp ?out) = length ls"
    using count_surviving_strip[of ?out] by (simp add: parse_log_eq lines)
  have "\<forall>l\<in>set (split_all newline ?out). survives l \<longrightarrow> hash_and_subject_have_text l"
  proof (intro ballI impI)
    fix l assume "l \<in> set (split_all newline ?out)" "survives l"
    then have "l \<in> set (filter survives (split_all newline ?out))" by simp
    then show "hash_and_subject_have_text l" using wf by (simp add: lines well_formed_line_def)
  qed
  from well_formed_strip[OF this]
  show "\<forall>c\<in>set (parse_log rn rp ?out). hash c \<noteq> [] \<and> subject c \<noteq> []"
    by (auto simp: parse_log_eq commit_of_parts_def hash_and_subject_have_text_def
             dest: has_text_not_Nil)
qed

lemma fst_get_commit_history:
  "fst (get_commit_history w p rn rp f) =
     (case git_log w (log_command f) p of
        Inr r \<Rightarrow> if returncode r \<noteq> 0 then [] else parse_log rn rp (stdout r)
      | Inl _ \<Rightarrow> [])"
  by (simp add: get_commit_history_def Let_def split: sum.splits exn.splits)

lemma get_commit_history_provenance:
  assumes "c \<in> set (fst (get_commit_history w p rn rp f))"
  shows "\<exists>cmd cwd r l. git_log w cmd cwd = Inr r \<and> returncode r = 0
           \<and> l \<in> set (split_all newline (strip (stdout r))) \<and> survives l
           \<and> hash c = fields_of l ! 0 \<and> subject c = fields_of l ! 3"
proof (cases "git_log w (log_command f) p")
  case (Inl e)
  with assms show ?thesis by (simp add: fst_get_commit_history)
next
  case (Inr r)
  with assms have rc: "returncode r = 0" and "c \<in> set (parse_log rn rp (stdout r))"
    by (auto simp: fst_get_commit_history split: if_splits)
  then obtain l where "l \<in> set (split_all newline (strip (stdout r)))" "survives l"
      "c = commit_of_parts rn rp (fields_of l)"
    by (auto simp: parse_log_eq)
  then show ?thesis using Inr rc by (auto simp: commit_of_parts_def)
qed

lemma collect_result_provenance:
  assumes "c \<in> set (collect_result w f repo)"
  shows "\<exists>cmd cwd r l. git_log w cmd cwd = Inr r \<and> returncode r = 0
           \<and> l \<in> set (split_all newline (strip (stdout r))) \<and> survives l
           \<and> hash c = fields_of l ! 0 \<and> subject c = fields_of l ! 3"
proof -
  from assms obtain p rn rp where "c \<in> set (fst (get_commit_history w p rn rp f))"
    by (auto simp: collect_result_def process_repository_def clone_and_extract_def Let_def
                   split_beta
             split: sum.splits if_splits)
  then show ?thesis by (rule get_commit_history_provenance)
qed

lemma set_filter_authors: "set (filter_authors cfg cs) \<subseteq> set cs"
  by (auto simp: filter_authors_def split: option.splits)

lemma export_history_provenance:
  assumes "export_history w cfg repos f = Inr result" and "c \<in> set result"
  shows "\<exists>cmd cwd r l. git_log w cmd cwd = Inr r \<and> returncode r = 0
           \<and> l \<in> set (split_all newline (strip (stdout r))) \<and> survives l
           \<and> hash c = fields_of l ! 0 \<and> subject c = fields_of l ! 3"
proof -
  from assms have "c \<in> set (filter_authors cfg (gather w f repos))"
    by (auto simp: export_history_def set_sort_reverse split: if_splits)
  then have "c \<in> set (gather w f repos)"
    using set_filter_authors by blast
  then obtain repo where "c \<in> set (collect_result w f repo)"
    by (auto simp: gather_def)
  then show ?thesis by (rule collect_result_provenance)
qed

text \<open>
  C5, as the claim states it, fails. Nothing in the extractor or after it looks at the
  hash or at the subject of a record: a continuation line of a commit body that holds
  three delimiters becomes a record whose hash is what stands before the first
  delimiter (here nothing), and a commit with an empty message becomes a record with
  an empty subject. Both records are in the final result of the collection.
\<close>

theorem empty_hash_and_subject_counterexample:
  "\<not> isl (export_history (local_world table_in_body) empty_config [local_repo] no_filters)
   \<and> \<not> list_all (\<lambda>c. hash c \<noteq> [] \<and> subject c \<noteq> [])
       (projr (export_history (local_world table_in_body) empty_config [local_repo] no_filters))"
  by code_simp

text \<open>
  C5, amended. Every record of the final collection result was built from a line with
  at least four fields of the stripped output of a successful log command, its hash
  and its subject being the first and the fourth field of that line as they stand,
  empty or not. For a log output that consists of N well-formed lines (each without
  line break, with at least four fields, the first and the fourth of which hold a
  character that is not whitespace) the extractor returns exactly N records, each with
  a non-empty hash and a non-empty subject.
\<close>

theorem records_built_from_lines:
  "(\<forall>result. export_history w cfg repos f = Inr result \<longrightarrow>
      (\<forall>c\<in>set result.
         \<exists>cmd cwd r' l. git_log w cmd cwd = Inr r' \<and> returncode r' = 0
           \<and> l \<in> set (split_all newline (strip (stdout r'))) \<and> survives l
           \<and> hash c = fields_of l ! 0 \<and> subject c = fields_of l ! 3))
   \<and> ((\<forall>l\<in>set ls. well_formed_line l) \<and> git_log w (log_command f) path = Inr r
        \<and> returncode r = 0 \<and> stdout r = join_lines ls
      \<longrightarrow> length (fst (get_commit_history w path rn rp f)) = length ls
          \<and> (\<forall>c\<in>set (fst (get_commit_history w path rn rp f)).
                hash c \<noteq> [] \<and> subject c \<noteq> []))"
proof (intro conjI ballI impI allI)
  fix result c assume "export_history w cfg repos f = Inr result" "c \<in> set result"
  then show "\<exists>cmd cwd r' l. git_log w cmd cwd = Inr r' \<and> returncode r' = 0
           \<and> l \<in> set (split_all newline (strip (stdout r'))) \<and> survives l
           \<and> hash c = fields_of l ! 0 \<and> subject c = fields_of l ! 3"
    by (rule export_history_provenance)
next
  assume a: "(\<forall>l\<in>set ls. well_formed_line l) \<and> git_log w (log_command f) path = Inr r
        \<and> returncode r = 0 \<and> stdout r = join_lines ls"
  then have p: "fst (get_commit_history w path rn rp f) = parse_log rn rp (join_lines ls)"
    by (simp add: fst_get_commit_history)
  from a have wf: "\<forall>l\<in>set ls. well_formed_line l" by simp
  show "length (fst (get_commit_history w path rn rp f)) = length ls"
    using parse_log_well_formed(1)[OF wf] by (simp add: p)
  fix c assume "c \<in> set (fst (get_commit_history w path rn rp f))"
  then show "hash c \<noteq> []" "subject c \<noteq> []"
    using parse_log_well_formed(2)[OF wf, of rn rp] by (simp_all add: p)
qed

theorem records_built_from_lines_witness:
  "list_all well_formed_line two_lines
   \<and> git_log (local_world (join_lines two_lines)) (log_command no_filters) ''/repo''
       = Inr \<lparr> returncode = 0, stdout = join_lines two_lines, stderr = [] \<rparr>
   \<and> length (fst (get_commit_history (local_world (join_lines two_lines)) ''/repo'' ''repo''
                ''Demo'' no_filters)) = 2
   \<and> list_all (\<lambda>c. hash c \<noteq> [] \<and> subject c \<noteq> [])
        (fst (get_commit_history (local_world (join_lines two_lines)) ''/repo'' ''repo''
                ''Demo'' no_filters))"
proof -
  have wf: "\<forall>l\<in>set two_lines. well_formed_line l"
    by code_simp
  have g: "git_log (local_world (join_lines two_lines)) (log_command no_filters) ''/repo''
       = Inr \<lparr> returncode = 0, stdout = join_lines two_lines, stderr = [] \<rparr>"
    by (simp add: local_world_def)
  have n: "length two_lines = 2" by (simp add: two_lines_def)
  show ?thesis
    using records_built_from_lines[of "local_world (join_lines two_lines)" empty_config "[]"
        no_filters two_lines "''/repo''"
        "\<lparr> returncode = 0, stdout = join_lines two_lines, stderr = [] \<rparr>" "''repo''" "''Demo''"]
      wf g n
    by (simp add: list_all_iff)
qed

subsection \<open>Collection Orchestrator: failing tasks\<close>

lemma fst_cleanup_directory: "fst (cleanup_directory w d) = Inr ()"
  by (simp add: cleanup_directory_def split: option.splits exn.splits sum.splits)

lemma fst_clone_and_extract:
  "fst (clone_and_extract w u p rn rp f) =
     (if command_fails (git_clone w u p) \<or> isl (git_fetch w p) then []
      else fst (get_commit_history w p rn rp f))"
  by (simp add: clone_and_extract_def command_fails_def split_beta split: sum.splits)

lemma failed_log_gives_nothing:
  "command_fails (git_log w (log_command f) p) \<Longrightarrow> fst (get_commit_history w p rn rp f) = []"
  by (simp add: fst_get_commit_history command_fails_def split: sum.splits)

lemma task_fails_collect_result:
  assumes "task_fails w f repo"
  shows "collect_result w f repo = []"
proof -
  let ?u = "get_default (url repo) []"
  let ?n = "get_default (name repo) ''unknown''"
  from assms have u: "?u \<noteq> []" by (simp add: task_fails_def Let_def)
  show ?thesis
  proof (cases "path_exists w ?u")
    case True
    with assms have "command_fails (git_log w (log_command f) ?u)"
      by (simp add: task_fails_def Let_def)
    from failed_log_gives_nothing[OF this] True u show ?thesis
      by (simp add: collect_result_def process_repository_def Let_def split_beta)
  next
    case False
    show ?thesis
    proof (cases "make_temp w repo")
      case (Inl e)
      with False u show ?thesis
        by (simp add: collect_result_def process_repository_def Let_def)
    next
      case (Inr t)
      with assms False have
        "command_fails (git_clone w ?u (path_join t ?n)) \<or> isl (git_fetch w (path_join t ?n))
         \<or> command_fails (git_log w (log_command f) (path_join t ?n))"
        by (simp add: task_fails_def Let_def)
      then have "fst (clone_and_extract w ?u (path_join t ?n) ?n
                   (get_default (project_label repo) ''Unknown'') f) = []"
        using failed_log_gives_nothing by (auto simp: fst_clone_and_extract)
      then show ?thesis using False u Inr fst_cleanup_directory[of w t]
        by (simp add: collect_result_def process_repository_def Let_def split_beta
                 split: sum.splits)
    qed
  qed
qed

lemma mset_filter_authors:
  "mset xs = mset ys \<Longrightarrow> mset (filter_authors cfg xs) = mset (filter_authors cfg ys)"
  by (simp add: filter_authors_def split: option.splits)

lemma mset_concat_map_perm:
  assumes "mset xs = mset ys"
  shows "mset (concat (map g xs)) = mset (concat (map g ys))"
proof -
  have "mset (concat (map g zs)) = (\<Sum>z\<in>#mset zs. mset (g z))" for zs
    by (induction zs) simp_all
  then show ?thesis using assms by simp
qed

lemma concat_skip_empty:
  "\<forall>x. P x \<longrightarrow> g x = [] \<Longrightarrow> concat (map g (filter (\<lambda>x. \<not> P x) xs)) = concat (map g xs)"
  by (induction xs) auto


text \<open>
  C4. A repository whose task fails (its log command, clone command or fetch command
  raises a timeout or any other exception, its log or clone command exits with a
  non-zero status, or its workspace cannot be created) contributes the empty list of
  records, also when the exception leaves \<open>_process_repository\<close>, since the collecting
  loop catches it; and the collection, given a worker pool of positive size, returns
  normally with exactly the records (filtered by author and sorted) of the
  repositories whose task does not fail, whatever the order in which the worker pool
  completes the tasks.
\<close>

theorem failing_task_contributes_nothing:
  assumes "mset (completion_order w repos) = mset repos" and "0 < pool_workers f"
  shows "(\<forall>repo. task_fails w f repo \<longrightarrow> collect_result w f repo = [])
         \<and> (\<exists>result. export_history w cfg repos f = Inr result
              \<and> mset result
                = mset (filter_authors cfg
                    (concat (map (collect_result w f)
                       (filter (\<lambda>r. \<not> task_fails w f r) repos)))))"
proof -
  have 1: "\<forall>repo. task_fails w f repo \<longrightarrow> collect_result w f repo = []"
    using task_fails_collect_result by blast
  have "mset (gather w f repos) = mset (concat (map (collect_result w f) repos))"
    unfolding gather_def using assms(1) by (rule mset_concat_map_perm)
  also have "\<dots> = mset (concat (map (collect_result w f)
                        (filter (\<lambda>r. \<not> task_fails w f r) repos)))"
    using concat_skip_empty[OF 1, of repos] by simp
  finally have "mset (filter_authors cfg (gather w f repos))
     = mset (filter_authors cfg (concat (map (collect_result w f)
                        (filter (\<lambda>r. \<not> task_fails w f r) repos))))"
    by (rule mset_filter_authors)
  then show ?thesis using 1 assms(2) by (simp add: export_history_def mset_sort_reverse)
qed

theorem failing_task_contributes_nothing_witness:
  "mset (completion_order ((local_world three_authors)\<lparr> git_clone := (\<lambda>u p. Inl TimeoutExpired) \<rparr>)
          [remote_repo, local_repo]) = mset [remote_repo, local_repo]
   \<and> 0 < pool_workers no_filters
   \<and> task_fails ((local_world three_authors)\<lparr> git_clone := (\<lambda>u p. Inl TimeoutExpired) \<rparr>)
        no_filters remote_repo
   \<and> collect_result ((local_world three_authors)\<lparr> git_clone := (\<lambda>u p. Inl TimeoutExpired) \<rparr>)
        no_filters remote_repo = []
   \<and> \<not> isl (export_history ((local_world three_authors)\<lparr> git_clone := (\<lambda>u p. Inl TimeoutExpired) \<rparr>)
        empty_config [remote_repo, local_repo] no_filters)
   \<and> mset (projr (export_history
        ((local_world three_authors)\<lparr> git_clone := (\<lambda>u p. Inl TimeoutExpired) \<rparr>)
        empty_config [remote_repo, local_repo] no_filters))
     = mset (collect_result ((local_world three_authors)\<lparr> git_clone := (\<lambda>u p. Inl TimeoutExpired) \<rparr>)
        no_filters local_repo)"
proof -
  let ?w = "(local_world three_authors)\<lparr> git_clone := (\<lambda>u p. Inl TimeoutExpired) \<rparr>"
  have p: "mset (completion_order ?w [remote_repo, local_repo]) = mset [remote_repo, local_repo]"
    by (simp add: local_world_def)
  have k: "0 < pool_workers no_filters"
    by (simp add: pool_workers_def no_filters_def)
  have t: "task_fails ?w no_filters remote_repo"
    by (simp add: task_fails_def remote_repo_def local_world_def command_fails_def path_join_def)
  have n: "\<not> task_fails ?w no_filters local_repo"
    by (simp add: task_fails_def local_repo_def local_world_def command_fails_def)
  show ?thesis
    using failing_task_contributes_nothing[OF p k, of empty_config] t n p k
    by (auto simp: filter_authors_def empty_config_def)
qed

subsection \<open>Collection Orchestrator: the order of the result\<close>

text \<open>
  C1, as the claim states it, fails. \<open>export_history\<close> sorts on the raw date string,
  not on a parsed timestamp. The record whose date field is \<open>(bot)\<close> does not parse and
  so has the current time as timestamp, which makes it the newest; as a string,
  \<open>(bot)\<close> is below every date that starts with a digit, and the collection puts the
  record last.
\<close>

theorem raw_date_order_counterexample:
  "\<not> isl (export_history (local_world piped_author) empty_config [local_repo] no_filters)
   \<and> \<not> descending (map (spec_timestamp (2026, 11, 4, 12, 0, 0, 0))
        (projr (export_history (local_world piped_author) empty_config [local_repo] no_filters)))"
  by code_simp

lemma descending_sort_reverse: "descending (map k (sort_reverse k xs))"
proof -
  have "sorted (map k (sort_key k (rev xs)))" by (rule sorted_sort_key)
  then have "sorted_wrt (\<lambda>a b. b \<le> a) (rev (map k (sort_key k (rev xs))))"
    by (simp add: sorted_wrt_rev)
  then show ?thesis by (simp add: sort_reverse_def rev_map)
qed

lemma map_fst_parse_dates: "map fst (parse_dates clock k cs) = cs"
  by (induction cs arbitrary: k) (simp_all split: option.splits)

lemma parse_dates_timestamps:
  "(c, t) \<in> set (parse_dates clock k cs) \<Longrightarrow>
     (case strptime (take 19 (date c)) of Some t' \<Rightarrow> t = t' | None \<Rightarrow> \<exists>j. t = clock j)"
  by (induction cs arbitrary: k) (auto split: option.splits)


text \<open>
  C1, amended. The collection operation \<open>export_history\<close> (which returns whenever the
  worker pool has a positive size) orders its result by the raw date string,
  descending in the order of strings. The ordering by timestamp is
  made by \<open>generate_logbook\<close>, which receives the collected records: it orders them by
  timestamp descending (newest first), keeping every record, where the timestamp of a
  record is the parse of the first 19 characters of its raw date string against
  \<open>%Y-%m-%d %H:%M:%S\<close>, and a reading of the current time when they do not parse.
\<close>

theorem collection_and_logbook_order:
  "(0 < pool_workers f \<longrightarrow>
      (\<exists>result. export_history w cfg repos f = Inr result \<and> descending (map date result)))
   \<and> descending (map snd (logbook_order w commits))
   \<and> mset (map fst (logbook_order w commits)) = mset commits
   \<and> (\<forall>(c, t)\<in>set (logbook_order w commits).
        case strptime (take 19 (date c)) of Some t' \<Rightarrow> t = t' | None \<Rightarrow> \<exists>j. t = now w j)"
proof -
  have "mset (map fst (logbook_order w commits)) = mset (map fst (parse_dates (now w) 0 commits))"
    by (simp add: logbook_order_def mset_sort_reverse)
  then have "mset (map fst (logbook_order w commits)) = mset commits"
    by (simp only: map_fst_parse_dates)
  then show ?thesis
    using parse_dates_timestamps[of _ _ "now w" 0 commits]
    by (auto simp: export_history_def logbook_order_def descending_sort_reverse set_sort_reverse)
qed

theorem collection_and_logbook_order_witness:
  "0 < pool_workers no_filters
   \<and> map date (projr (export_history (local_world piped_author) empty_config [local_repo]
                       no_filters))
     = [''2024-01-04 09:00:00 +0000'', ''(bot)'']
   \<and> descending (map date
         (projr (export_history (local_world piped_author) empty_config [local_repo] no_filters)))
   \<and> map (\<lambda>(c, t). (date c, t)) (logbook_order (local_world piped_author)
         (projr (export_history (local_world piped_author) empty_config [local_repo] no_filters)))
     = [(''(bot)'', (2026, 11, 4, 12, 0, 0, 0)),
        (''2024-01-04 09:00:00 +0000'', (2024, 1, 4, 9, 0, 0, 0))]
   \<and> descending (map snd (logbook_order (local_world piped_author)
         (projr (export_history (local_world piped_author) empty_config [local_repo] no_filters))))"
proof -
  let ?e = "export_history (local_world piped_author) empty_config [local_repo] no_filters"
  have k: "0 < pool_workers no_filters"
    by (simp add: pool_workers_def no_filters_def)
  have a: "map date (projr ?e) = [''2024-01-04 09:00:00 +0000'', ''(bot)'']"
    by code_simp
  have b: "map (\<lambda>(c, t). (date c, t)) (logbook_order (local_world piped_author) (projr ?e))
     = [(''(bot)'', (2026, 11, 4, 12, 0, 0, 0)),
        (''2024-01-04 09:00:00 +0000'', (2024, 1, 4, 9, 0, 0, 0))]"
    by code_simp
  note T = collection_and_logbook_order[of no_filters "local_world piped_author" empty_config
        "[local_repo]" "projr ?e"]
  from T k obtain result where r: "?e = Inr result" "descending (map date result)" by blast
  then have c: "descending (map date (projr ?e))" by simp
  from T have d: "descending (map snd (logbook_order (local_world piped_author) (projr ?e)))"
    by blast
  from k a c b d show ?thesis by blast
qed

subsection \<open>Entry point\<close>

lemma files_written_simps:
  "files_written [] = []"
  "files_written (WriteFile p # evs) = p # files_written evs"
  "files_written (LogLine l m # evs) = files_written evs"
  "files_written (Print msg # evs) = files_written evs"
  "files_written (RunRmtree d # evs) = files_written evs"
  "files_written (RunRmdirFallback d # evs) = files_written evs"
  "files_written (xs @ ys) = files_written xs @ files_written ys"
  by (simp_all add: files_written_def)






lemma print_line_Inr: "print_line w m = (Inr x, E) \<Longrightarrow> files_written E = []"
  by (auto simp: print_line_def files_written_simps split: option.splits)



























subsection \<open>Tabular export\<close>

lemma file_lines_newline: "file_lines (newline # cs) = [newline] # file_lines cs"
  by simp

lemma file_lines_CR_newline: "file_lines (CR # newline # ds) = [CR, newline] # file_lines ds"
  by simp

lemma file_lines_CR:
  "cs = [] \<or> hd cs \<noteq> newline \<Longrightarrow> file_lines (CR # cs) = [CR] # file_lines cs"
  by (cases cs) auto

lemma file_lines_other:
  "c \<noteq> newline \<Longrightarrow> c \<noteq> CR \<Longrightarrow>
   file_lines (c # cs) = (case file_lines cs of [] \<Rightarrow> [[c]] | l # ls \<Rightarrow> (c # l) # ls)"
  by simp

lemma file_lines_Nil_iff: "file_lines cs = [] \<longleftrightarrow> cs = []"
  by (cases cs) (auto split: list.splits)

lemma read_lines_Nil_run: "read_lines r [] = run r []"
  by (cases r) simp

lemma run_line_end:
  "line_ends c cs \<Longrightarrow>
   run r (c # cs) =
     (case process_line r [c] of
        None \<Rightarrow> None
      | Some (st, fld, fs) \<Rightarrow>
          if st = START_RECORD then map_option ((#) fs) (run (START_RECORD, [], []) cs)
          else run (st, fld, fs) cs)"
  by (simp split: option.splits)

lemma run_no_line_end:
  "\<not> line_ends c cs \<Longrightarrow>
   run r (c # cs) =
     (case parse_process_char r (Some c) of None \<Rightarrow> None | Some r' \<Rightarrow> run r' cs)"
  by (simp split: option.splits)

lemma read_lines_push:
  "read_lines r ((c # l) # ls) =
     (case parse_process_char r (Some c) of None \<Rightarrow> None | Some r' \<Rightarrow> read_lines r' (l # ls))"
  by (simp split: option.splits)

lemma read_lines_one_char:
  assumes "\<And>r'. read_lines r' L = run r' cs" and "line_ends c cs"
  shows "read_lines r ([c] # L) = run r (c # cs)"
  unfolding run_line_end[OF assms(2)] read_lines.simps(2) assms(1) ..

lemma read_lines_run: "read_lines r (file_lines s) = run r s"
proof (induction s arbitrary: r rule: file_lines.induct)
  case 1
  show ?case by (cases r) simp
next
  case (2 c cs)
  show ?case
  proof (cases "c = newline")
    case True
    have "line_ends c cs" using True by (simp add: line_ends_def)
    from read_lines_one_char[OF 2(1)[OF True] this] show ?thesis
      by (simp only: True file_lines_newline)
  next
    case nl: False
    show ?thesis
    proof (cases "c = CR")
      case True
      show ?thesis
      proof (cases cs)
        case Nil
        have le: "line_ends CR []" by (simp add: line_ends_def)
        have fl: "file_lines [CR] = [[CR]]" by simp
        show ?thesis unfolding Nil True fl
          by (rule read_lines_one_char[of "[]" "[]", OF read_lines_Nil_run le])
      next
        case (Cons d ds)
        show ?thesis
        proof (cases "d = newline")
          case dn: True
          have le: "line_ends newline ds" by (simp add: line_ends_def)
          have nle: "\<not> line_ends CR (newline # ds)" by (simp add: line_ends_def)
          have inner: "read_lines r' ([newline] # file_lines ds) = run r' (newline # ds)" for r'
            by (rule read_lines_one_char[OF 2(2)[OF nl True Cons dn] le])
          have "read_lines r ([CR, newline] # file_lines ds) =
                  (case parse_process_char r (Some CR) of
                     None \<Rightarrow> None
                   | Some r' \<Rightarrow> read_lines r' ([newline] # file_lines ds))"
            by (rule read_lines_push)
          also have "\<dots> = run r (CR # newline # ds)"
            by (simp only: inner run_no_line_end[OF nle])
          finally show ?thesis by (simp only: True Cons dn file_lines_CR_newline)
        next
          case dn: False
          have le: "line_ends c cs" using True Cons dn by (simp add: line_ends_def)
          have "file_lines (CR # cs) = [CR] # file_lines cs"
            using Cons dn by (intro file_lines_CR) simp
          with read_lines_one_char[OF 2(3)[OF nl True Cons dn] le] show ?thesis
            using True by simp
        qed
      qed
    next
      case cr: False
      show ?thesis
      proof (cases "file_lines cs")
        case Nil
        then have e: "cs = []" by (simp add: file_lines_Nil_iff)
        have le: "line_ends c []" by (simp add: line_ends_def)
        have fl: "file_lines [c] = [[c]]" using nl cr by simp
        show ?thesis unfolding e fl
          by (rule read_lines_one_char[of "[]" "[]", OF read_lines_Nil_run le])
      next
        case (Cons l ls)
        then have "cs \<noteq> []" by auto
        then have nle: "\<not> line_ends c cs" using nl cr by (simp add: line_ends_def)
        have "read_lines r ((c # l) # ls) =
                (case parse_process_char r (Some c) of
                   None \<Rightarrow> None
                 | Some r' \<Rightarrow> read_lines r' (l # ls))"
          by (rule read_lines_push)
        also have "\<dots> = run r (c # cs)"
          by (simp only: Cons[symmetric] 2(4)[OF nl cr] run_no_line_end[OF nle])
        finally have fin: "read_lines r ((c # l) # ls) = run r (c # cs)" .
        have "file_lines (c # cs) = (c # l) # ls"
          by (simp only: file_lines_other[OF nl cr] Cons list.case)
        then show ?thesis using fin by (simp only:)
      qed
    qed
  qed
qed


declare run.simps(2) [simp del]

lemma run_step:
  "\<not> line_ends c cs \<Longrightarrow> parse_process_char r (Some c) = Some r' \<Longrightarrow> run r (c # cs) = run r' cs"
  by (simp add: run_no_line_end)

lemma not_line_ends: "c \<noteq> newline \<Longrightarrow> c \<noteq> CR \<Longrightarrow> cs \<noteq> [] \<Longrightarrow> \<not> line_ends c cs"
  by (simp add: line_ends_def)

lemma run_in_quoted_char:
  assumes "c \<noteq> dquote"
  shows "run (IN_QUOTED_FIELD, fld, fs) (c # cs) = run (IN_QUOTED_FIELD, fld @ [c], fs) cs"
  using assms by (cases "line_ends c cs") (simp_all add: run_line_end run_no_line_end)

lemma run_quoted_content:
  "rest \<noteq> [] \<Longrightarrow>
   run (IN_QUOTED_FIELD, fld, fs) (double_quotes f @ dquote # rest)
     = run (QUOTE_IN_QUOTED_FIELD, fld @ f, fs) rest"
proof (induction f arbitrary: fld)
  case Nil
  have "\<not> line_ends dquote rest" using Nil by (simp add: not_line_ends)
  then show ?case by (simp add: double_quotes_def run_no_line_end)
next
  case (Cons c f)
  show ?case
  proof (cases "c = dquote")
    case True
    have a: "\<not> line_ends dquote (dquote # double_quotes f @ dquote # rest)"
      by (simp add: not_line_ends)
    have b: "\<not> line_ends dquote (double_quotes f @ dquote # rest)"
      by (simp add: not_line_ends)
    have "run (IN_QUOTED_FIELD, fld, fs) (double_quotes (c # f) @ dquote # rest)
        = run (IN_QUOTED_FIELD, fld @ [dquote], fs) (double_quotes f @ dquote # rest)"
      using True a b by (simp add: double_quotes_def run_no_line_end)
    then show ?thesis using Cons.IH[OF Cons.prems, of "fld @ [dquote]"] True by simp
  next
    case False
    have "run (IN_QUOTED_FIELD, fld, fs) (double_quotes (c # f) @ dquote # rest)
        = run (IN_QUOTED_FIELD, fld @ [c], fs) (double_quotes f @ dquote # rest)"
      using False by (simp add: double_quotes_def run_in_quoted_char)
    then show ?thesis using Cons.IH[OF Cons.prems, of "fld @ [c]"] by simp
  qed
qed

lemma run_unquoted_content:
  "\<not> list_ex special f \<Longrightarrow> rest \<noteq> [] \<Longrightarrow>
   run (IN_FIELD, fld, fs) (f @ rest) = run (IN_FIELD, fld @ f, fs) rest"
proof (induction f arbitrary: fld)
  case Nil
  show ?case by simp
next
  case (Cons c f)
  then have nc: "\<not> special c" and f: "\<not> list_ex special f"
    by simp_all
  from nc have c: "c \<noteq> newline" "c \<noteq> CR" "c \<noteq> comma" "c \<noteq> dquote"
    by (simp_all add: special_def)
  have "\<not> line_ends c (f @ rest)" using c Cons.prems by (simp add: not_line_ends)
  then have "run (IN_FIELD, fld, fs) ((c # f) @ rest) = run (IN_FIELD, fld @ [c], fs) (f @ rest)"
    using c by (simp add: run_no_line_end)
  then show ?case using Cons.IH[OF f Cons.prems(2), of "fld @ [c]"] by simp
qed

lemma run_end_of_record:
  assumes "st = START_FIELD \<or> st = IN_FIELD \<or> st = QUOTE_IN_QUOTED_FIELD"
  shows "run (st, fld, fs) (CR # newline # d)
           = map_option ((#) (fs @ [fld])) (run (START_RECORD, [], []) d)"
proof -
  have a: "\<not> line_ends CR (newline # d)" by (simp add: line_ends_def)
  have b: "line_ends newline d" by (simp add: line_ends_def)
  have "run (st, fld, fs) (CR # newline # d) = run (EAT_CRNL, [], fs @ [fld]) (newline # d)"
    using assms a by (auto simp: run_no_line_end start_field_def)
  also have "\<dots> = map_option ((#) (fs @ [fld])) (run (START_RECORD, [], []) d)"
    using b by (simp add: run_line_end)
  finally show ?thesis .
qed

lemma run_field_start:
  "rest \<noteq> [] \<Longrightarrow>
   run (START_FIELD, [], fs) (csv_field f @ rest)
     = (if list_ex special f then run (QUOTE_IN_QUOTED_FIELD, f, fs) rest
        else if f = [] then run (START_FIELD, [], fs) rest
        else run (IN_FIELD, f, fs) rest)"
proof (cases "list_ex special f")
  case True
  assume r: "rest \<noteq> []"
  have a: "\<not> line_ends dquote (double_quotes f @ dquote # rest)" by (simp add: not_line_ends)
  have "run (START_FIELD, [], fs) (csv_field f @ rest)
      = run (IN_QUOTED_FIELD, [], fs) (double_quotes f @ dquote # rest)"
    using True a by (simp add: csv_field_def run_no_line_end start_field_def)
  then show ?thesis using True run_quoted_content[OF r, of "[]" fs f] by simp
next
  case False
  assume r: "rest \<noteq> []"
  show ?thesis
  proof (cases f)
    case Nil
    then show ?thesis using False by (simp add: csv_field_def)
  next
    case (Cons c f')
    then have nc: "\<not> special c" and f': "\<not> list_ex special f'"
      using False by simp_all
    from nc have c: "c \<noteq> newline" "c \<noteq> CR" "c \<noteq> comma" "c \<noteq> dquote"
      by (simp_all add: special_def)
    have "\<not> line_ends c (f' @ rest)" using c r by (simp add: not_line_ends)
    then have "run (START_FIELD, [], fs) (csv_field f @ rest) = run (IN_FIELD, [c], fs) (f' @ rest)"
      using False Cons c by (simp add: csv_field_def run_no_line_end start_field_def)
    then show ?thesis using False Cons run_unquoted_content[OF f' r, of "[c]" fs] by simp
  qed
qed

lemma run_field_comma:
  assumes "rest \<noteq> []"
  shows "run (START_FIELD, [], fs) (csv_field f @ comma # rest) = run (START_FIELD, [], fs @ [f]) rest"
proof -
  have a: "\<not> line_ends comma rest" using assms by (simp add: not_line_ends)
  have "run (st, fld, fs) (comma # rest) = run (START_FIELD, [], fs @ [fld]) rest"
    if "st = START_FIELD \<or> st = IN_FIELD \<or> st = QUOTE_IN_QUOTED_FIELD" for st fld
    using that a by (auto simp: run_no_line_end start_field_def)
  then show ?thesis
    using run_field_start[of "comma # rest" fs f] by simp
qed

lemma run_field_end:
  "run (START_FIELD, [], fs) (csv_field f @ CR # newline # d)
     = map_option ((#) (fs @ [f])) (run (START_RECORD, [], []) d)"
  using run_field_start[of "CR # newline # d" fs f]
  by (simp add: run_end_of_record)

lemma run_fields:
  "row \<noteq> [] \<Longrightarrow>
   run (START_FIELD, [], fs) (join_fields (map csv_field row) @ CR # newline # d)
     = map_option ((#) (fs @ row)) (run (START_RECORD, [], []) d)"
proof (induction row arbitrary: fs rule: join_fields.induct)
  case 1
  then show ?case by simp
next
  case (2 x)
  show ?case by (simp add: run_field_end)
next
  case (3 x y ys)
  have "run (START_FIELD, [], fs)
          (join_fields (map csv_field (x # y # ys)) @ CR # newline # d)
      = run (START_FIELD, [], fs @ [x]) (join_fields (map csv_field (y # ys)) @ CR # newline # d)"
    using run_field_comma[of "join_fields (map csv_field (y # ys)) @ CR # newline # d" fs x]
    by simp
  then show ?case using 3(1)[of "fs @ [x]"] by simp
qed


lemma run_start_record:
  "c \<noteq> newline \<Longrightarrow> c \<noteq> CR \<Longrightarrow>
   run (START_RECORD, fld, fs) (c # cs) = run (START_FIELD, fld, fs) (c # cs)"
  by (simp add: run.simps(2))

lemma csv_field_head: "csv_field f = c # cs \<Longrightarrow> c \<noteq> newline \<and> c \<noteq> CR"
proof (cases "list_ex special f")
  case True
  assume "csv_field f = c # cs"
  with True show ?thesis by (auto simp: csv_field_def)
next
  case False
  assume "csv_field f = c # cs"
  with False have "f = c # cs" by (simp add: csv_field_def)
  with False have "\<not> special c" by simp
  then show ?thesis by (simp add: special_def)
qed

lemma csv_field_Nil: "csv_field f = [] \<longleftrightarrow> f = []"
  by (cases f) (simp_all add: csv_field_def)

lemma joined_row_head:
  assumes "row \<noteq> []" and "row \<noteq> [[]]"
  shows "\<exists>c cs. join_fields (map csv_field row) @ rest = c # cs \<and> c \<noteq> newline \<and> c \<noteq> CR"
proof (cases row)
  case Nil
  with assms show ?thesis by simp
next
  case (Cons x xs)
  show ?thesis
  proof (cases "csv_field x")
    case fNil: Nil
    then have "x = []" by (simp add: csv_field_Nil)
    with Cons assms obtain y ys where "xs = y # ys" by (cases xs) auto
    then show ?thesis using Cons fNil by simp
  next
    case (Cons c cs)
    from csv_field_head[OF this] have "c \<noteq> newline \<and> c \<noteq> CR" .
    then show ?thesis using Cons \<open>row = x # xs\<close> by (cases xs) auto
  qed
qed

lemma run_csv_row:
  "run (START_RECORD, [], []) (csv_row row @ d)
     = map_option ((#) row) (run (START_RECORD, [], []) d)"
proof (cases "row = []")
  case True
  have a: "\<not> line_ends CR (newline # d)" by (simp add: line_ends_def)
  have b: "line_ends newline d" by (simp add: line_ends_def)
  have "run (START_RECORD, [], []) (CR # newline # d) = run (EAT_CRNL, [], []) (newline # d)"
    using a by (simp add: run_no_line_end)
  also have "\<dots> = map_option ((#) []) (run (START_RECORD, [], []) d)"
    using b by (simp add: run_line_end)
  finally show ?thesis using True by (simp add: csv_row_def)
next
  case ne: False
  show ?thesis
  proof (cases "row = [[]]")
    case True
    have a: "\<not> line_ends dquote (dquote # CR # newline # d)" by (simp add: not_line_ends)
    have b: "\<not> line_ends dquote (CR # newline # d)" by (simp add: not_line_ends)
    have "run (START_RECORD, [], []) (dquote # dquote # CR # newline # d)
        = run (QUOTE_IN_QUOTED_FIELD, [], []) (CR # newline # d)"
      using a b by (simp add: run_no_line_end start_field_def)
    then show ?thesis using True by (simp add: csv_row_def run_end_of_record)
  next
    case False
    obtain c cs where h: "join_fields (map csv_field row) @ CR # newline # d = c # cs"
        "c \<noteq> newline" "c \<noteq> CR"
      using joined_row_head[OF ne False] by blast
    have "run (START_RECORD, [], []) (join_fields (map csv_field row) @ CR # newline # d)
        = run (START_FIELD, [], []) (join_fields (map csv_field row) @ CR # newline # d)"
      unfolding h(1) using h(2,3) by (rule run_start_record)
    then show ?thesis using False run_fields[OF ne, of "[]" d] by (simp add: csv_row_def)
  qed
qed

lemma run_csv_rows: "run (START_RECORD, [], []) (concat (map csv_row rows)) = Some rows"
proof (induction rows)
  case Nil
  show ?case by simp
next
  case (Cons row rows)
  show ?case using run_csv_row[of row "concat (map csv_row rows)"] Cons by simp
qed

lemma csv_reader_csv_text:
  "csv_reader (csv_text commits) = Some (fieldnames # map row_of_commit commits)"
proof -
  have "csv_text commits = concat (map csv_row (fieldnames # map row_of_commit commits))"
    by (simp add: csv_text_def)
  then show ?thesis by (simp only: csv_reader_def read_lines_run run_csv_rows)
qed


text \<open>
  C6. The text that \<open>save_to_csv\<close> writes starts with the header repository, project,
  hash, author_name, date, subject, body, and \<open>csv.reader\<close> reads from it the header
  followed, for every commit, by its seven field values as they were, in the order of
  the header. This holds for all field values of the model, ASCII or not, also when
  they hold commas, quotes or line breaks; the file exists only for a non-empty list
  of commits.
\<close>

theorem csv_round_trip:
  "csv_reader (csv_text commits) = Some (fieldnames # map row_of_commit commits)
   \<and> (fst (snd (save_to_csv w commits output_file)) = Some text \<longrightarrow>
        commits \<noteq> []
        \<and> csv_reader text = Some (fieldnames # map row_of_commit commits))
   \<and> fieldnames = [''repository'', ''project'', ''hash'', ''author_name'', ''date'',
                    ''subject'', ''body'']"
  by (auto simp: csv_reader_csv_text save_to_csv_def fieldnames_def
           split: if_splits option.splits)

theorem csv_round_trip_witness:
  "fst (snd (save_to_csv (local_world []) [awkward_commit] ''commits.csv''))
     = Some (csv_text [awkward_commit])
   \<and> length (file_lines (csv_text [awkward_commit])) = 6
   \<and> csv_reader (csv_text [awkward_commit])
     = Some [[''repository'', ''project'', ''hash'', ''author_name'', ''date'', ''subject'',
              ''body''],
             [''tools,core'', ''Demo'', ''0a1b2c3'', [CHR ''A'', dquote, CHR ''n'', dquote],
              ''2024-01-05 10:00:00 +0000'',
              [CHR ''a'', CR, CHR ''b'', CR, newline, CHR ''c'', newline, CR], []]]"
proof -
  have s: "fst (snd (save_to_csv (local_world []) [awkward_commit] ''commits.csv''))
     = Some (csv_text [awkward_commit])"
    by (simp add: save_to_csv_def local_world_def)
  have n: "length (file_lines (csv_text [awkward_commit])) = 6"
    by code_simp
  have r: "row_of_commit awkward_commit =
             [''tools,core'', ''Demo'', ''0a1b2c3'', [CHR ''A'', dquote, CHR ''n'', dquote],
              ''2024-01-05 10:00:00 +0000'',
              [CHR ''a'', CR, CHR ''b'', CR, newline, CHR ''c'', newline, CR], []]"
    by (simp add: row_of_commit_def awkward_commit_def)
  show ?thesis
    using csv_round_trip[of "[awkward_commit]" "local_world []" "''commits.csv''"
        "csv_text [awkward_commit]"] s n r
    by (simp add: fieldnames_def)
qed

end
